theory Spec2Isabelle
  imports Complex_Main "HOL-Library.Char_ord" "HOL-Library.List_Lexorder"
begin

section \<open>The InfluxDB v2 output: HTTP delivery client (plugins/outputs/influxdb_v2/http.go)\<close>

subsection \<open>URL builder\<close>

text \<open>
  Modelled from the spec: the base endpoint, a scheme with a host and a path (or a socket
  path). It is Go's \<open>url.URL\<close>, declared in the standard library, with every field the
  library prints: the opaque part, the user information, the path with the encoded
  form it was parsed from (\<open>RawPath\<close>), the query and the fragment.
\<close>

record Userinfo =
  username :: string
  password :: string
  passwordSet :: bool

record URL =
  Scheme :: string
  Opaque :: string
  User :: "Userinfo option"
  Host :: string
  Path :: string
  RawPath :: string
  OmitHost :: bool
  ForceQuery :: bool
  RawQuery :: string
  Fragment :: string
  RawFragment :: string

text \<open>
  Modelled from the spec: standard URL percent-encoding, as Go's \<open>net/url\<close> does it
  (\<open>shouldEscape\<close>, \<open>escape\<close>, \<open>unescape\<close>, \<open>validEncoding\<close>) in the modes that
  \<open>URL.String\<close> and \<open>Values.Encode\<close> reach: the path, the host, the user information,
  a query component and the fragment.
\<close>

datatype encoding =
  encodePath | encodeHost | encodeUserPassword | encodeQueryComponent | encodeFragment

definition isAlnum :: "char \<Rightarrow> bool" where
  "isAlnum c = (let n = (of_char c :: nat) in
     (97 \<le> n \<and> n \<le> 122) \<or> (65 \<le> n \<and> n \<le> 90) \<or> (48 \<le> n \<and> n \<le> 57))"

definition hostSubDelims :: "char list" where
  "hostSubDelims = ''!$&()*+,;=:[]<>'' @ [CHR 0x27, CHR 0x22]"

definition shouldEscape :: "char \<Rightarrow> encoding \<Rightarrow> bool" where
  "shouldEscape c mode =
     (if isAlnum c then False
      else if mode = encodeHost \<and> c \<in> set hostSubDelims then False
      else if c \<in> set ''-_.~'' then False
      else if c \<in> set ''$&+,/:;=?@'' then
        (case mode of
           encodePath \<Rightarrow> c = CHR ''?''
         | encodeUserPassword \<Rightarrow> c \<in> set ''@/?:''
         | encodeQueryComponent \<Rightarrow> True
         | encodeFragment \<Rightarrow> False
         | encodeHost \<Rightarrow> True)
      else if mode = encodeFragment \<and> c \<in> set ''!()*'' then False
      else True)"

definition upperhex :: "nat \<Rightarrow> char" where
  "upperhex n = ''0123456789ABCDEF'' ! (n mod 16)"

fun escape :: "string \<Rightarrow> encoding \<Rightarrow> string" where
  "escape [] mode = []"
| "escape (c # s) mode =
     (if shouldEscape c mode then
        (if c = CHR '' '' \<and> mode = encodeQueryComponent then ''+''
         else [CHR ''%'', upperhex (of_char c div 16), upperhex (of_char c mod 16)])
      else [c]) @ escape s mode"

definition QueryEscape :: "string \<Rightarrow> string" where
  "QueryEscape s = escape s encodeQueryComponent"

definition ishex :: "char \<Rightarrow> bool" where
  "ishex c = (let n = (of_char c :: nat) in
     (48 \<le> n \<and> n \<le> 57) \<or> (97 \<le> n \<and> n \<le> 102) \<or> (65 \<le> n \<and> n \<le> 70))"

definition unhex :: "char \<Rightarrow> nat" where
  "unhex c = (let n = (of_char c :: nat) in
     if 48 \<le> n \<and> n \<le> 57 then n - 48
     else if 97 \<le> n \<and> n \<le> 102 then n - 97 + 10
     else if 65 \<le> n \<and> n \<le> 70 then n - 65 + 10
     else 0)"

text \<open>
  \<open>unescape\<close> for a path and for a fragment: every \<open>%\<close> must be followed by two
  hexadecimal digits and stands for that byte; anything else is an error.
\<close>

fun unescape :: "string \<Rightarrow> string option" where
  "unescape [] = Some []"
| "unescape (c # s) =
     (if c = CHR ''%'' then
        (case s of
           h1 # h2 # rest \<Rightarrow>
             (if ishex h1 \<and> ishex h2 then
                (case unescape rest of
                   None \<Rightarrow> None
                 | Some t \<Rightarrow> Some (char_of (unhex h1 * 16 + unhex h2) # t))
              else None)
         | _ \<Rightarrow> None)
      else (case unescape s of None \<Rightarrow> None | Some t \<Rightarrow> Some (c # t)))"

definition validEncoding :: "string \<Rightarrow> encoding \<Rightarrow> bool" where
  "validEncoding s mode =
     list_all (\<lambda>c. c \<in> set (''!$&()*+,;=:@[]%'' @ [CHR 0x27]) \<or> \<not> shouldEscape c mode) s"

text \<open>
  Modelled from the spec: query parameters, one value per name (\<open>url.Values\<close> with
  \<open>Set\<close>), encoded sorted by name as \<open>name=value\<close> joined by \<open>&\<close>.
\<close>

type_synonym Values = "(string \<times> string) list"

definition Values_Set :: "Values \<Rightarrow> string \<Rightarrow> string \<Rightarrow> Values" where
  "Values_Set v k x = (k, x) # filter (\<lambda>p. fst p \<noteq> k) v"

fun join_amp :: "string list \<Rightarrow> string" where
  "join_amp [] = []"
| "join_amp [x] = x"
| "join_amp (x # y # ys) = x @ ''&'' @ join_amp (y # ys)"

definition Values_Encode :: "Values \<Rightarrow> string" where
  "Values_Encode v =
     join_amp (map (\<lambda>(k, x). QueryEscape k @ ''='' @ QueryEscape x) (sort_key fst v))"

text \<open>
  Modelled from the spec: appending a sub-path to an existing path, as Go's \<open>path.Join\<close>
  does it: the non-empty elements are joined by a slash and the result is cleaned
  (\<open>path.Clean\<close>: repeated slashes, \<open>.\<close> elements and inner \<open>..\<close> elements are removed,
  \<open>..\<close> at the root is dropped, the empty result is \<open>.\<close>).
\<close>

fun split_slash :: "string \<Rightarrow> string list" where
  "split_slash [] = [[]]"
| "split_slash (c # s) =
     (if c = CHR ''/'' then [] # split_slash s
      else (case split_slash s of
              [] \<Rightarrow> [[c]]
            | x # xs \<Rightarrow> (c # x) # xs))"

fun join_slash :: "string list \<Rightarrow> string" where
  "join_slash [] = []"
| "join_slash [x] = x"
| "join_slash (x # y # ys) = x @ ''/'' @ join_slash (y # ys)"

definition clean_step :: "bool \<Rightarrow> string list \<Rightarrow> string \<Rightarrow> string list" where
  "clean_step rooted stack e =
     (if e = [] \<or> e = ''.'' then stack
      else if e = ''..'' then
        (case stack of
           [] \<Rightarrow> (if rooted then [] else [''..''])
         | t # ts \<Rightarrow> (if t = ''..'' then e # stack else ts))
      else e # stack)"

definition path_Clean :: "string \<Rightarrow> string" where
  "path_Clean p =
     (if p = [] then ''.''
      else
        (let rooted = (hd p = CHR ''/'');
             stack = foldl (clean_step rooted) [] (split_slash p);
             out = (if rooted then ''/'' else []) @ join_slash (rev stack)
         in if out = [] then ''.'' else out))"

definition path_Join :: "string \<Rightarrow> string \<Rightarrow> string" where
  "path_Join a b =
     (if a = [] \<and> b = [] then []
      else if a = [] then path_Clean b
      else if b = [] then path_Clean a
      else path_Clean (a @ ''/'' @ b))"

text \<open>
  Modelled from the spec: the absolute URL string of an endpoint, as Go's \<open>URL.String\<close>
  assembles it: \<open>scheme:opaque?query#fragment\<close> or
  \<open>scheme://userinfo@host/path?query#fragment\<close>. The path is printed in its raw form
  when that form is a valid encoding of the path, and escaped otherwise
  (\<open>URL.EscapedPath\<close>); the fragment likewise.
\<close>

definition EscapedPath :: "URL \<Rightarrow> string" where
  "EscapedPath u =
     (if RawPath u \<noteq> [] \<and> validEncoding (RawPath u) encodePath
         \<and> unescape (RawPath u) = Some (Path u)
      then RawPath u
      else if Path u = ''*'' then ''*''
      else escape (Path u) encodePath)"

definition EscapedFragment :: "URL \<Rightarrow> string" where
  "EscapedFragment u =
     (if RawFragment u \<noteq> [] \<and> validEncoding (RawFragment u) encodeFragment
         \<and> unescape (RawFragment u) = Some (Fragment u)
      then RawFragment u
      else escape (Fragment u) encodeFragment)"

definition Userinfo_String :: "Userinfo \<Rightarrow> string" where
  "Userinfo_String ui =
     escape (username ui) encodeUserPassword
     @ (if passwordSet ui then '':'' @ escape (password ui) encodeUserPassword else [])"

definition URL_String :: "URL \<Rightarrow> string" where
  "URL_String u =
     (let b1 = (if Scheme u \<noteq> [] then Scheme u @ '':'' else []);
          b2 =
            (if Opaque u \<noteq> [] then Opaque u
             else
               (let auth =
                      (if Scheme u \<noteq> [] \<or> Host u \<noteq> [] \<or> User u \<noteq> None then
                         (if OmitHost u \<and> Host u = [] \<and> User u = None then []
                          else
                            (if Host u \<noteq> [] \<or> Path u \<noteq> [] \<or> User u \<noteq> None
                             then ''//'' else [])
                            @ (case User u of
                                 None \<Rightarrow> []
                               | Some ui \<Rightarrow> Userinfo_String ui @ ''@'')
                            @ (if Host u \<noteq> [] then escape (Host u) encodeHost else []))
                       else []);
                    p = EscapedPath u;
                    sep = (if p \<noteq> [] \<and> hd p \<noteq> CHR ''/'' \<and> Host u \<noteq> [] then ''/'' else []);
                    dot = (if b1 @ auth @ sep = []
                              \<and> CHR '':'' \<in> set (takeWhile (\<lambda>c. c \<noteq> CHR ''/'') p)
                           then ''./'' else [])
                in auth @ sep @ dot @ p));
          q = (if ForceQuery u \<or> RawQuery u \<noteq> [] then ''?'' @ RawQuery u else []);
          f = (if Fragment u \<noteq> [] then ''#'' @ EscapedFragment u else [])
      in b1 @ b2 @ q @ f)"

text \<open>A URL with a scheme, a host and a path, and nothing else.\<close>

definition plain_URL :: "string \<Rightarrow> string \<Rightarrow> string \<Rightarrow> URL" where
  "plain_URL scheme host path =
     \<lparr>Scheme = scheme, Opaque = [], User = None, Host = host, Path = path, RawPath = [],
      OmitHost = False, ForceQuery = False, RawQuery = [], Fragment = [], RawFragment = []\<rparr>"

text \<open>\<open>APIError\<close>: StatusCode, Title, Description, in this order.\<close>

datatype APIError = APIError int string string

text \<open>
  The errors of the client: \<open>retry time has not elapsed\<close> (line 202),
  \<open>unsupported scheme\<close> (lines 563, 578, 596), an error handed back by a collaborator
  (the transport, gzip, \<open>http.NewRequest\<close>, a JSON decoder), \<open>failed to write metric\<close>
  with the status line and the description (line 309), \<open>waiting ... for server\<close> with
  the delay in nanoseconds (line 319), \<open>BucketNotFoundError\<close> with the bucket (line 323),
  a plain \<open>APIError\<close>, \<open>failed to get ID for org\<close> (line 390), and a run-time panic,
  which ends the call like an error.
\<close>

datatype error =
    ErrRetryTimeNotElapsed
  | ErrUnsupportedScheme string
  | ErrExternal string
  | ErrFailedToWrite string string
  | ErrWaiting int
  | BucketNotFoundError APIError string
  | ErrAPI APIError
  | ErrGetOrgID string
  | ErrPanic

text \<open>\<open>makeWriteURL\<close>, \<open>makeCreateURL\<close>, \<open>makeOrgIDURL\<close> (http.go, lines 550 to 600).\<close>

definition makeWriteURL :: "URL \<Rightarrow> string \<Rightarrow> string \<Rightarrow> error + string" where
  "makeWriteURL loc org bucket =
     (let params = Values_Set (Values_Set [] ''bucket'' bucket) ''org'' org in
      if Scheme loc = ''unix'' then
        Inr (URL_String (loc\<lparr>Scheme := ''http'', Host := ''127.0.0.1'',
               Path := ''/api/v2/write'', RawQuery := Values_Encode params\<rparr>))
      else if Scheme loc = ''http'' \<or> Scheme loc = ''https'' then
        Inr (URL_String (loc\<lparr>Path := path_Join (Path loc) ''/api/v2/write'',
               RawQuery := Values_Encode params\<rparr>))
      else Inl (ErrUnsupportedScheme (Scheme loc)))"

definition makeCreateURL :: "URL \<Rightarrow> error + string" where
  "makeCreateURL loc =
     (if Scheme loc = ''unix'' then
        Inr (URL_String (loc\<lparr>Scheme := ''http'', Host := ''127.0.0.1'',
               Path := ''/api/v2/buckets''\<rparr>))
      else if Scheme loc = ''http'' \<or> Scheme loc = ''https'' then
        Inr (URL_String (loc\<lparr>Path := path_Join (Path loc) ''/api/v2/buckets''\<rparr>))
      else Inl (ErrUnsupportedScheme (Scheme loc)))"

definition makeOrgIDURL :: "URL \<Rightarrow> string \<Rightarrow> error + string" where
  "makeOrgIDURL loc orgName =
     (let params = Values_Set (Values_Set [] ''org'' orgName) ''limit'' ''1'' in
      if Scheme loc = ''unix'' then
        Inr (URL_String (loc\<lparr>Scheme := ''http'', Host := ''127.0.0.1'',
               Path := ''/api/v2/orgs'', RawQuery := Values_Encode params\<rparr>))
      else if Scheme loc = ''http'' \<or> Scheme loc = ''https'' then
        Inr (URL_String (loc\<lparr>Path := path_Join (Path loc) ''/api/v2/orgs'',
               RawQuery := Values_Encode params\<rparr>))
      else Inl (ErrUnsupportedScheme (Scheme loc)))"

subsection \<open>Data model\<close>

text \<open>
  Modelled from the spec: a metric is a record with a measurement name, tags, fields and
  a timestamp (\<open>telegraf.Metric\<close> lives outside this file). Metrics are objects: a batch
  is a list of references into a heap, \<open>Copy\<close> allocates a new object with the same
  contents, \<open>RemoveTag\<close> updates the object it is called on, \<open>GetTag\<close> reads it, and
  \<open>Accept\<close> leaves the contents alone. A reference that addresses no object (a nil
  metric) makes a method call panic.
\<close>

record Metric =
  Name :: string
  Tags :: "(string \<times> string) list"
  Fields :: "(string \<times> string) list"
  Time :: int

type_synonym addr = nat

datatype body =
    NoBody
  | LineProtocol "Metric list" bool
  | CreateBucketRequest string string

text \<open>
  Headers are lists of names with one value each, the names in their canonical form;
  the body of a response is the text read from it in full.
\<close>

type_synonym header = "(string \<times> string) list"

record request =
  Method :: string
  Target :: string
  ReqHeader :: header
  ReqBody :: body

record response =
  StatusCode :: int
  Status :: string
  Header :: header
  Body :: string

text \<open>
  \<open>genericRespError\<close>; \<open>Line\<close> and \<open>MaxLength\<close> are pointers, and hold here, when not nil,
  the text that \<open>%d\<close> prints for the pointer.
\<close>

record genericRespError =
  Code :: string
  Message :: string
  Line :: "string option"
  MaxLength :: "string option"

definition genericRespError_Error :: "genericRespError \<Rightarrow> string" where
  "genericRespError_Error g =
     (let errString = Code g @ '': '' @ Message g in
      case Line g of
        Some l \<Rightarrow> errString @ '' - line['' @ l @ '']''
      | None \<Rightarrow>
         (case MaxLength g of
            Some m \<Rightarrow> errString @ '' - maxlen['' @ m @ '']''
          | None \<Rightarrow> errString))"

datatype log_entry =
    LogDropped string string
  | LogRetry int string
  | LogCreateFailed string string error

text \<open>
  The values of a \<open>float64\<close>: the finite ones, as rationals, the two infinities and
  not-a-number.
\<close>

datatype float64 = Finite rat | PosInf | NegInf | NaN

text \<open>
  The collaborators of the client, as functions: the \<open>k\<close>-th round trip of the HTTP
  client, the \<open>k\<close>-th reading of the clock (nanoseconds), \<open>strconv.ParseFloat\<close>
  (\<open>None\<close> for an error), gzip compression and \<open>http.NewRequest\<close> (their error, if
  any), the JSON decoders of the error body and of the organisation list, \<open>json.Valid\<close>,
  and the order in which the \<open>k\<close>-th \<open>range\<close> over a map visits it. Two facts about
  the platform belong here as well: the width in bits of Go's \<open>int\<close> (32 or 64), and the
  integer that the conversion of a \<open>float64\<close> to \<open>int64\<close> yields for a value that has
  none (a not-a-number, an infinity, a value out of range), which Go leaves to the
  implementation.
\<close>

record env =
  Do :: "nat \<Rightarrow> request \<Rightarrow> error + response"
  Now :: "nat \<Rightarrow> int"
  ParseFloat :: "string \<Rightarrow> float64 option"
  CompressWithGzip :: "Metric list \<Rightarrow> error option"
  NewRequest :: "string \<Rightarrow> string \<Rightarrow> error option"
  DecodeError :: "string \<Rightarrow> genericRespError option"
  DecodeOrgs :: "string \<Rightarrow> string list option"
  JSONValid :: "string \<Rightarrow> bool"
  RangeOrder :: "nat \<Rightarrow> nat list"
  IntSize :: nat
  Int64OfFloat :: "float64 \<Rightarrow> int"

text \<open>
  Everything outside the client that a call changes: the round trips made so far (each
  request with what came back), the log, the number of clock readings and of map
  iterations, the heap of metric objects, and the transport errors reported to
  \<open>internal.OnClientError\<close>.
\<close>

record world =
  exchanges :: "(request \<times> (error + response)) list"
  logs :: "log_entry list"
  ticks :: nat
  ranges :: nat
  heap :: "Metric list"
  clientErrors :: "error list"

record httpClient =
  ContentEncoding :: string
  Headers :: header
  Organization :: string
  Bucket :: string
  BucketTag :: string
  ExcludeBucketTag :: bool
  SkipBucketCreation :: bool
  createBucketExecuted :: "string \<rightharpoonup> bool"
  url :: URL
  retryTime :: int
  retryCount :: int

definition defaultMaxWait :: rat where
  "defaultMaxWait = 60"

definition errStringBucketNotFound :: string where
  "errStringBucketNotFound = ''not found: bucket''"

definition Second :: int where
  "Second = 1000000000"

subsection \<open>Collaborators\<close>

definition time_Now :: "env \<Rightarrow> world \<Rightarrow> int \<times> world" where
  "time_Now E w = (Now E (ticks w), w\<lparr>ticks := Suc (ticks w)\<rparr>)"

definition client_Do :: "env \<Rightarrow> world \<Rightarrow> request \<Rightarrow> (error + response) \<times> world" where
  "client_Do E w rq =
     (let r = Do E (length (exchanges w)) rq
      in (r, w\<lparr>exchanges := exchanges w @ [(rq, r)]\<rparr>))"

definition OnClientError :: "error \<Rightarrow> world \<Rightarrow> world" where
  "OnClientError e w = w\<lparr>clientErrors := clientErrors w @ [e]\<rparr>"

definition log_Printf :: "log_entry \<Rightarrow> world \<Rightarrow> world" where
  "log_Printf l w = w\<lparr>logs := logs w @ [l]\<rparr>"

definition Header_Get :: "header \<Rightarrow> string \<Rightarrow> string" where
  "Header_Get h k = (case map_of h k of None \<Rightarrow> [] | Some v \<Rightarrow> v)"

definition Header_Set :: "header \<Rightarrow> string \<Rightarrow> string \<Rightarrow> header" where
  "Header_Set h k v = (k, v) # filter (\<lambda>p. fst p \<noteq> k) h"

fun Contains :: "string \<Rightarrow> string \<Rightarrow> bool" where
  "Contains [] sub = (sub = [])"
| "Contains (c # s) sub = (take (length sub) (c # s) = sub \<or> Contains s sub)"

definition deref :: "world \<Rightarrow> addr \<Rightarrow> Metric option" where
  "deref w a = (if a < length (heap w) then Some (heap w ! a) else None)"

definition GetTag :: "Metric \<Rightarrow> string \<Rightarrow> string option" where
  "GetTag m key = map_of (Tags m) key"

definition Metric_Copy :: "world \<Rightarrow> Metric \<Rightarrow> addr \<times> world" where
  "Metric_Copy w m = (length (heap w), w\<lparr>heap := heap w @ [m]\<rparr>)"

definition RemoveTag :: "world \<Rightarrow> addr \<Rightarrow> string \<Rightarrow> world" where
  "RemoveTag w a key =
     (if a < length (heap w)
      then w\<lparr>heap := (heap w)[a := (heap w ! a)\<lparr>Tags := filter (\<lambda>p. fst p \<noteq> key) (Tags (heap w ! a))\<rparr>]\<rparr>
      else w)"

subsection \<open>Requests\<close>

definition addHeaders :: "httpClient \<Rightarrow> header \<Rightarrow> header" where
  "addHeaders c h = foldl (\<lambda>h (k, v). Header_Set h k v) h (Headers c)"

definition makeWriteRequest :: "env \<Rightarrow> httpClient \<Rightarrow> string \<Rightarrow> body \<Rightarrow> error + request" where
  "makeWriteRequest E c loc b =
     (case NewRequest E ''POST'' loc of
        Some err \<Rightarrow> Inl err
      | None \<Rightarrow>
         (let h1 = Header_Set [] ''Content-Type'' ''text/plain; charset=utf-8'';
              h2 = addHeaders c h1;
              h3 = (if ContentEncoding c = ''gzip''
                    then Header_Set h2 ''Content-Encoding'' ''gzip'' else h2)
          in Inr \<lparr>Method = ''POST'', Target = loc, ReqHeader = h3, ReqBody = b\<rparr>))"

definition makeAPIRequest ::
  "env \<Rightarrow> httpClient \<Rightarrow> string \<Rightarrow> string \<Rightarrow> body \<Rightarrow> error + request" where
  "makeAPIRequest E c method loc b =
     (case NewRequest E method loc of
        Some err \<Rightarrow> Inl err
      | None \<Rightarrow>
         (let h0 = (if b \<noteq> NoBody
                    then Header_Set [] ''Content-Type'' ''application/json'' else []);
              h1 = Header_Set h0 ''Accept'' ''application/json'';
              h2 = addHeaders c h1;
              h3 = (if ContentEncoding c = ''gzip''
                    then Header_Set h2 ''Content-Encoding'' ''gzip'' else h2)
          in Inr \<lparr>Method = method, Target = loc, ReqHeader = h3, ReqBody = b\<rparr>))"

definition requestBodyReader :: "env \<Rightarrow> httpClient \<Rightarrow> world \<Rightarrow> addr list \<Rightarrow> error + body" where
  "requestBodyReader E c w metrics =
     (case those (map (deref w) metrics) of
        None \<Rightarrow> Inl ErrPanic
      | Some ms \<Rightarrow>
         (if ContentEncoding c = ''gzip'' then
            (case CompressWithGzip E ms of
               Some err \<Rightarrow> Inl err
             | None \<Rightarrow> Inr (LineProtocol ms True))
          else Inr (LineProtocol ms False)))"

subsection \<open>Backoff\<close>

text \<open>
  \<open>math.Max\<close> and \<open>math.Min\<close>: an infinity of the right sign wins, then a not-a-number,
  then the comparison.
\<close>

definition math_Max :: "float64 \<Rightarrow> float64 \<Rightarrow> float64" where
  "math_Max x y =
     (if x = PosInf \<or> y = PosInf then PosInf
      else if x = NaN \<or> y = NaN then NaN
      else (case (x, y) of
              (Finite a, Finite b) \<Rightarrow> (if a > b then Finite a else Finite b)
            | (NegInf, _) \<Rightarrow> y
            | (_, _) \<Rightarrow> x))"

definition math_Min :: "float64 \<Rightarrow> float64 \<Rightarrow> float64" where
  "math_Min x y =
     (if x = NegInf \<or> y = NegInf then NegInf
      else if x = NaN \<or> y = NaN then NaN
      else (case (x, y) of
              (Finite a, Finite b) \<Rightarrow> (if a < b then Finite a else Finite b)
            | (PosInf, _) \<Rightarrow> y
            | (_, _) \<Rightarrow> x))"

text \<open>An integer of \<open>n\<close> bits: arithmetic wraps around.\<close>

definition wrap_int :: "nat \<Rightarrow> int \<Rightarrow> int" where
  "wrap_int n x = (x + 2 ^ (n - 1)) mod (2 * 2 ^ (n - 1)) - 2 ^ (n - 1)"

text \<open>
  The conversion \<open>time.Duration(retry)\<close> of a \<open>float64\<close> to an \<open>int64\<close>: a finite value
  in range is truncated towards zero.
\<close>

definition Duration_of_float :: "env \<Rightarrow> float64 \<Rightarrow> int" where
  "Duration_of_float E f =
     (case f of
        Finite x \<Rightarrow>
          (let t = (if 0 \<le> x then \<lfloor>x\<rfloor> else \<lceil>x\<rceil>)
           in if - (2 ^ 63) \<le> t \<and> t < 2 ^ 63 then t else Int64OfFloat E f)
      | _ \<Rightarrow> Int64OfFloat E f)"

text \<open>
  \<open>getRetryDuration\<close> (lines 468 to 488). The source computes the backoff in
  \<open>float64\<close>; it is the exact quotient here. The two agree on the result: the backoff
  enters it only through the whole seconds of a maximum and a minimum, which commute
  with truncation, and below the ceiling of 60 the rounded quotient has the same whole
  seconds as the exact one (a quotient by 40 that is not whole is at least 1/40 away
  from a whole number).
\<close>

definition getRetryDuration :: "env \<Rightarrow> httpClient \<Rightarrow> header \<Rightarrow> int" where
  "getRetryDuration E c headers =
     (let backoff = Finite ((of_int (retryCount c))\<^sup>2 / 40);
          retryAfterHeaderString = Header_Get headers ''Retry-After'';
          retryAfterHeader =
            (if length retryAfterHeaderString > 0 then
               (case ParseFloat E retryAfterHeaderString of
                  None \<Rightarrow> Finite 10
                | Some x \<Rightarrow> x)
             else Finite 0);
          retry = math_Min (math_Max backoff retryAfterHeader) (Finite defaultMaxWait)
      in wrap_int 64 (Duration_of_float E retry * Second))"

subsection \<open>Writing one batch\<close>

text \<open>
  Lines 288 to 293, and again 431 to 436: the description of a failure is the decoded
  error body, or the status line when the body does not decode.
\<close>

definition errorDescription :: "env \<Rightarrow> response \<Rightarrow> string" where
  "errorDescription E resp =
     (case DecodeError E (Body resp) of
        None \<Rightarrow> Status resp
      | Some g \<Rightarrow> genericRespError_Error g)"

text \<open>
  \<open>writeBatch\<close>, lines 273 to 350: what the client does with the response to a write.
\<close>

definition writeResponse ::
  "env \<Rightarrow> httpClient \<Rightarrow> world \<Rightarrow> string \<Rightarrow> response \<Rightarrow> error option \<times> httpClient \<times> world" where
  "writeResponse E c w bucket resp =
     (if StatusCode resp \<in> {204, 200, 201, 202, 206, 207, 208} then
        (None, c\<lparr>retryCount := 0\<rparr>, w)
      else
        (let desc = errorDescription E resp
         in
         if StatusCode resp \<in> {400, 413, 422, 406} then
           (None, c, log_Printf (LogDropped (Status resp) desc) w)
         else if StatusCode resp \<in> {401, 403} then
           (Some (ErrFailedToWrite (Status resp) desc), c, w)
         else if StatusCode resp \<in> {429, 503, 502, 504} then
           (let c1 = c\<lparr>retryCount := wrap_int (IntSize E) (retryCount c + 1)\<rparr>;
                retryDuration = getRetryDuration E c1 (Header resp);
                (now, w1) = time_Now E w;
                c2 = c1\<lparr>retryTime := now + retryDuration\<rparr>
            in (Some (ErrWaiting retryDuration), c2,
                log_Printf (LogRetry retryDuration (Status resp)) w1))
         else if Contains desc errStringBucketNotFound then
           (Some (BucketNotFoundError (APIError (StatusCode resp) (Status resp) desc) bucket),
            c, w)
         else if length (Status resp) > 0 \<and> Status resp ! 0 = CHR ''4'' then
           (None, c, log_Printf (LogDropped (Status resp) desc) w)
         else
           (let xErr = Header_Get (Header resp) ''X-Influx-Error'';
                desc1 = (if xErr \<noteq> [] then desc @ ''; '' @ xErr else desc)
            in (Some (ErrAPI (APIError (StatusCode resp) (Status resp) desc1)), c, w))))"

text \<open>\<open>writeBatch\<close> (lines 249 to 351).\<close>

definition writeBatch ::
  "env \<Rightarrow> httpClient \<Rightarrow> world \<Rightarrow> string \<Rightarrow> addr list \<Rightarrow> error option \<times> httpClient \<times> world" where
  "writeBatch E c w bucket metrics =
     (case makeWriteURL (url c) (Organization c) bucket of
        Inl err \<Rightarrow> (Some err, c, w)
      | Inr loc \<Rightarrow>
         (case requestBodyReader E c w metrics of
            Inl err \<Rightarrow> (Some err, c, w)
          | Inr reader \<Rightarrow>
             (case makeWriteRequest E c loc reader of
                Inl err \<Rightarrow> (Some err, c, w)
              | Inr req \<Rightarrow>
                 (case client_Do E w req of
                    (Inl err, w1) \<Rightarrow> (Some err, c, OnClientError err w1)
                  | (Inr resp, w1) \<Rightarrow> writeResponse E c w1 bucket resp))))"

subsection \<open>Bucket creation\<close>

text \<open>
  \<open>validateResponse\<close> (lines 446 to 465) returns the body with an error, if any; the
  error's text is the body itself.
\<close>

definition validateResponse :: "env \<Rightarrow> string \<Rightarrow> string \<times> string option" where
  "validateResponse E bodyBytes =
     (if length bodyBytes = 0 then (bodyBytes, None)
      else if \<not> JSONValid E bodyBytes then (bodyBytes, Some bodyBytes)
      else (bodyBytes, None))"

text \<open>\<open>getOrgID\<close> (lines 354 to 391).\<close>

definition getOrgID :: "env \<Rightarrow> httpClient \<Rightarrow> world \<Rightarrow> (error + string) \<times> world" where
  "getOrgID E c w =
     (case makeOrgIDURL (url c) (Organization c) of
        Inl err \<Rightarrow> (Inl err, w)
      | Inr loc \<Rightarrow>
         (case makeAPIRequest E c ''GET'' loc NoBody of
            Inl err \<Rightarrow> (Inl err, w)
          | Inr req \<Rightarrow>
             (case client_Do E w req of
                (Inl err, w1) \<Rightarrow> (Inl err, OnClientError err w1)
              | (Inr resp, w1) \<Rightarrow>
                 (case validateResponse E (Body resp) of
                    (b, Some msg) \<Rightarrow>
                      (Inl (ErrAPI (APIError (StatusCode resp) (Status resp)
                         (''An error response was received while attempting to get the organization's ID for: ''
                            @ Organization c @ ''. Error: '' @ msg))), w1)
                  | (b, None) \<Rightarrow>
                      (case DecodeOrgs E b of
                         None \<Rightarrow> (Inl (ErrExternal ''json: cannot decode''), w1)
                       | Some orgs \<Rightarrow>
                          (if StatusCode resp = 200 \<and> length orgs = 1
                           then (Inr (orgs ! 0), w1)
                           else (Inl (ErrGetOrgID (Organization c)), w1)))))))"

text \<open>\<open>CreateBucket\<close> (lines 394 to 443).\<close>

definition CreateBucket ::
  "env \<Rightarrow> httpClient \<Rightarrow> world \<Rightarrow> string \<Rightarrow> error option \<times> httpClient \<times> world" where
  "CreateBucket E c w bucket =
     (case getOrgID E c w of
        (Inl err, w1) \<Rightarrow> (Some err, c, w1)
      | (Inr orgId, w1) \<Rightarrow>
         (case makeCreateURL (url c) of
            Inl err \<Rightarrow> (Some err, c, w1)
          | Inr loc \<Rightarrow>
             (case makeAPIRequest E c ''POST'' loc (CreateBucketRequest bucket orgId) of
                Inl err \<Rightarrow> (Some err, c, w1)
              | Inr req \<Rightarrow>
                 (case client_Do E w1 req of
                    (Inl err, w2) \<Rightarrow> (Some err, c, OnClientError err w2)
                  | (Inr resp, w2) \<Rightarrow>
                     (if StatusCode resp = 201 then
                        (None,
                         c\<lparr>createBucketExecuted := (createBucketExecuted c)(bucket \<mapsto> True)\<rparr>,
                         w2)
                      else
                        (let desc = errorDescription E resp
                         in (Some (ErrAPI (APIError (StatusCode resp) (Status resp) desc)),
                             c, w2)))))))"

subsection \<open>Write\<close>

text \<open>
  The map \<open>batches\<close> of \<open>Write\<close> is a list of buckets with their batches, a bucket
  entering at the end when it is first seen; \<open>range\<close> visits the entries in an order
  of its own, drawn from the numbers the environment supplies.
\<close>

type_synonym batches = "(string \<times> addr list) list"

fun range_order :: "nat list \<Rightarrow> 'a list \<Rightarrow> 'a list" where
  "range_order rs [] = []"
| "range_order [] (x # xs) = x # xs"
| "range_order (r # rs) (x # xs) =
     (let i = r mod length (x # xs)
      in (x # xs) ! i # range_order rs (take i (x # xs) @ drop (Suc i) (x # xs)))"

definition batches_append :: "batches \<Rightarrow> string \<Rightarrow> addr \<Rightarrow> batches" where
  "batches_append bs bucket metric =
     map (\<lambda>(k, v). if k = bucket then (k, v @ [metric]) else (k, v)) bs"

text \<open>Lines 213 to 229: the body of the loop over the metrics.\<close>

definition group_step ::
  "httpClient \<Rightarrow> batches \<Rightarrow> world \<Rightarrow> addr \<Rightarrow> error + batches \<times> world" where
  "group_step c bs w metric =
     (case deref w metric of
        None \<Rightarrow> Inl ErrPanic
      | Some m \<Rightarrow>
         (let bucket = (case GetTag m (BucketTag c) of Some v \<Rightarrow> v | None \<Rightarrow> Bucket c);
              bs1 = (if map_of bs bucket = None then bs @ [(bucket, [])] else bs);
              (metric1, w1) =
                (if ExcludeBucketTag c then
                   (let (a, w') = Metric_Copy w m in (a, RemoveTag w' a (BucketTag c)))
                 else (metric, w))
          in Inr (batches_append bs1 bucket metric1, w1)))"

text \<open>The loop of lines 212 to 230.\<close>

fun group_metrics ::
  "httpClient \<Rightarrow> batches \<Rightarrow> world \<Rightarrow> addr list \<Rightarrow> error + batches \<times> world" where
  "group_metrics c bs w [] = Inr (bs, w)"
| "group_metrics c bs w (metric # rest) =
     (case group_step c bs w metric of
        Inl err \<Rightarrow> Inl err
      | Inr (bs1, w1) \<Rightarrow> group_metrics c bs1 w1 rest)"

text \<open>Lines 233 to 237: the bucket is created before its batch is written.\<close>

definition ensureBucket :: "env \<Rightarrow> httpClient \<Rightarrow> world \<Rightarrow> string \<Rightarrow> httpClient \<times> world" where
  "ensureBucket E c w bucket =
     (if \<not> SkipBucketCreation c \<and> createBucketExecuted c bucket \<noteq> Some True then
        (case CreateBucket E c w bucket of
           (Some err, c1, w1) \<Rightarrow>
             (c1, log_Printf (LogCreateFailed (URL_String (url c)) bucket err) w1)
         | (None, c1, w1) \<Rightarrow> (c1, w1))
      else (c, w))"

text \<open>The loop of lines 232 to 243.\<close>

fun write_batches ::
  "env \<Rightarrow> httpClient \<Rightarrow> world \<Rightarrow> batches \<Rightarrow> error option \<times> httpClient \<times> world" where
  "write_batches E c w [] = (None, c, w)"
| "write_batches E c w ((bucket, batch) # rest) =
     (case ensureBucket E c w bucket of
        (c1, w1) \<Rightarrow>
          (case writeBatch E c1 w1 bucket batch of
             (Some err, c2, w2) \<Rightarrow> (Some err, c2, w2)
           | (None, c2, w2) \<Rightarrow> write_batches E c2 w2 rest))"

text \<open>
  Lines 212 to 232: the batches of a call, in the order in which the loop over the map
  visits them.
\<close>

definition Write_groups ::
  "env \<Rightarrow> httpClient \<Rightarrow> world \<Rightarrow> addr list \<Rightarrow> error + batches \<times> world" where
  "Write_groups E c w metrics =
     (case group_metrics c [] w metrics of
        Inl err \<Rightarrow> Inl err
      | Inr (bs, w1) \<Rightarrow>
          Inr (range_order (RangeOrder E (ranges w1)) bs, w1\<lparr>ranges := Suc (ranges w1)\<rparr>))"

text \<open>
  \<open>Write\<close> after its gate (lines 205 to 246). A panic while the metrics are grouped
  ends the call before anything is sent.
\<close>

definition Write_send ::
  "env \<Rightarrow> httpClient \<Rightarrow> world \<Rightarrow> addr list \<Rightarrow> error option \<times> httpClient \<times> world" where
  "Write_send E c w metrics =
     (if BucketTag c = [] then writeBatch E c w (Bucket c) metrics
      else
        (case Write_groups E c w metrics of
           Inl err \<Rightarrow> (Some err, c, w)
         | Inr (gs, w1) \<Rightarrow> write_batches E c w1 gs))"

text \<open>\<open>Write\<close> (lines 200 to 247).\<close>

definition Write ::
  "env \<Rightarrow> httpClient \<Rightarrow> world \<Rightarrow> addr list \<Rightarrow> error option \<times> httpClient \<times> world" where
  "Write E c w metrics =
     (case time_Now E w of
        (now, w0) \<Rightarrow>
          (if retryTime c > now then (Some ErrRetryTimeNotElapsed, c, w0)
           else Write_send E c w0 metrics))"

subsection \<open>Observations on a run\<close>

text \<open>The round trips a call has added to the world, oldest first.\<close>

definition new_exchanges :: "world \<Rightarrow> world \<Rightarrow> (request \<times> (error + response)) list" where
  "new_exchanges w w' = drop (length (exchanges w)) (exchanges w')"

text \<open>A request that asks the server to create the bucket \<open>b\<close>.\<close>

definition creation_request :: "string \<Rightarrow> request \<Rightarrow> bool" where
  "creation_request b rq =
     (case ReqBody rq of CreateBucketRequest n i \<Rightarrow> n = b | _ \<Rightarrow> False)"

text \<open>A round trip in which the creation of \<open>b\<close> was answered with 201.\<close>

definition created_201 :: "string \<Rightarrow> request \<times> (error + response) \<Rightarrow> bool" where
  "created_201 b x =
     (creation_request b (fst x) \<and>
      (case snd x of Inr resp \<Rightarrow> StatusCode resp = 201 | Inl err \<Rightarrow> False))"

text \<open>
  The HTTP client reads the status code off the first three characters of the status
  line, so the line of a response begins with the digits of its code.
\<close>

definition status_digits :: "int \<Rightarrow> string" where
  "status_digits n =
     [''0123456789'' ! nat (n div 100 mod 10),
      ''0123456789'' ! nat (n div 10 mod 10),
      ''0123456789'' ! nat (n mod 10)]"

definition status_line_matches :: "response \<Rightarrow> bool" where
  "status_line_matches resp = (take 3 (Status resp) = status_digits (StatusCode resp))"

text \<open>A call only adds round trips: the old ones are a prefix of the new ones.\<close>

definition extends :: "world \<Rightarrow> world \<Rightarrow> bool" where
  "extends w w' = (exchanges w' = exchanges w @ new_exchanges w w')"

text \<open>The bucket is recorded as created.\<close>

definition bucket_created :: "httpClient \<Rightarrow> string \<Rightarrow> bool" where
  "bucket_created c b = (createBucketExecuted c b = Some True)"

subsection \<open>A small installation, for running the model\<close>

definition demo_response :: "int \<Rightarrow> string \<Rightarrow> header \<Rightarrow> string \<Rightarrow> response" where
  "demo_response code st h b = \<lparr>StatusCode = code, Status = st, Header = h, Body = b\<rparr>"

text \<open>
  A server that knows one organisation, answers a bucket creation with \<open>created\<close> and a
  write with \<open>written\<close>.
\<close>

definition demo_server :: "response \<Rightarrow> response \<Rightarrow> request \<Rightarrow> error + response" where
  "demo_server created written rq =
     (if Method rq = ''GET'' then Inr (demo_response 200 ''200 OK'' [] ''orgs'')
      else (case ReqBody rq of
              CreateBucketRequest n i \<Rightarrow> Inr created
            | _ \<Rightarrow> Inr written))"

definition demo_env :: "(nat \<Rightarrow> request \<Rightarrow> error + response) \<Rightarrow> env" where
  "demo_env d =
     \<lparr>Do = d,
      Now = (\<lambda>k. 100 * Second + int k),
      ParseFloat = (\<lambda>s. if s = ''5'' then Some (Finite 5)
         else if s = ''120'' then Some (Finite 120)
         else if s = ''NaN'' then Some NaN else None),
      CompressWithGzip = (\<lambda>ms. None),
      NewRequest = (\<lambda>m u. None),
      DecodeError = (\<lambda>b. if b = ''nf''
         then Some \<lparr>Code = ''not found'', Message = ''bucket b1 not found'',
                    Line = None, MaxLength = None\<rparr> else None),
      DecodeOrgs = (\<lambda>b. if b = ''orgs'' then Some [''0001''] else None),
      JSONValid = (\<lambda>b. True),
      RangeOrder = (\<lambda>k. []),
      IntSize = 64,
      Int64OfFloat = (\<lambda>f. - (2 ^ 63))\<rparr>"

definition demo_created :: response where
  "demo_created = demo_response 201 ''201 Created'' [] []"

definition demo_answers :: "response \<Rightarrow> env" where
  "demo_answers written = demo_env (\<lambda>k. demo_server demo_created written)"

definition demo_client :: httpClient where
  "demo_client =
     \<lparr>ContentEncoding = [], Headers = [(''Authorization'', ''Token t'')],
      Organization = ''o'', Bucket = ''b0'', BucketTag = ''bucket'',
      ExcludeBucketTag = True, SkipBucketCreation = False,
      createBucketExecuted = Map.empty,
      url = plain_URL ''http'' ''h'' [],
      retryTime = 0, retryCount = 0\<rparr>"

definition demo_cpu :: Metric where
  "demo_cpu = \<lparr>Name = ''cpu'', Tags = [(''bucket'', ''b1''), (''host'', ''a'')],
                Fields = [(''v'', ''1'')], Time = 1\<rparr>"

definition demo_mem :: Metric where
  "demo_mem = \<lparr>Name = ''mem'', Tags = [(''host'', ''a'')], Fields = [(''v'', ''2'')], Time = 2\<rparr>"

definition demo_world :: world where
  "demo_world =
     \<lparr>exchanges = [], logs = [], ticks = 0, ranges = 0,
      heap = [demo_cpu, demo_mem], clientErrors = []\<rparr>"

definition demo_write_request :: "string \<Rightarrow> Metric list \<Rightarrow> request" where
  "demo_write_request b ms =
     \<lparr>Method = ''POST'', Target = ''http://h/api/v2/write?bucket='' @ b @ ''&org=o'',
      ReqHeader = [(''Authorization'', ''Token t''),
                   (''Content-Type'', ''text/plain; charset=utf-8'')],
      ReqBody = LineProtocol ms False\<rparr>"

subsection \<open>The delay as the specification words it\<close>

text \<open>
  The specification's delay after a throttling response, in seconds:
  \<open>min(max(retryCount\<^sup>2 / 40, retryAfterSeconds), 60)\<close>, where \<open>retryAfterSeconds\<close> is the
  \<open>Retry-After\<close> header parsed as a number, 10 when the header is present and does not
  parse, 0 when it is absent.
\<close>

definition spec_retryAfterSeconds :: "env \<Rightarrow> header \<Rightarrow> rat" where
  "spec_retryAfterSeconds E h =
     (case map_of h ''Retry-After'' of
        None \<Rightarrow> 0
      | Some s \<Rightarrow> (case ParseFloat E s of Some (Finite x) \<Rightarrow> x | _ \<Rightarrow> 10))"

definition spec_delaySeconds :: "env \<Rightarrow> int \<Rightarrow> header \<Rightarrow> rat" where
  "spec_delaySeconds E n h = min (max ((of_int n)\<^sup>2 / 40) (spec_retryAfterSeconds E h)) 60"

definition demo_429 :: "header \<Rightarrow> response" where
  "demo_429 h = demo_response 429 ''429 Too Many Requests'' h []"

definition demo_404 :: "string \<Rightarrow> response" where
  "demo_404 b = demo_response 404 ''404 Not Found'' [] b"

definition demo_401 :: response where
  "demo_401 = demo_response 401 ''401 Unauthorized'' [] []"

definition demo_204 :: response where
  "demo_204 = demo_response 204 ''204 No Content'' [] []"

definition demo_orgs_exchange :: "request \<times> (error + response)" where
  "demo_orgs_exchange =
     (\<lparr>Method = ''GET'', Target = ''http://h/api/v2/orgs?limit=1&org=o'',
       ReqHeader = [(''Authorization'', ''Token t''), (''Accept'', ''application/json'')],
       ReqBody = NoBody\<rparr>,
      Inr (demo_response 200 ''200 OK'' [] ''orgs''))"

definition demo_create_request :: "string \<Rightarrow> request" where
  "demo_create_request b =
     \<lparr>Method = ''POST'', Target = ''http://h/api/v2/buckets'',
      ReqHeader = [(''Authorization'', ''Token t''), (''Accept'', ''application/json''),
                   (''Content-Type'', ''application/json'')],
      ReqBody = CreateBucketRequest b ''0001''\<rparr>"

definition demo_stripped :: "Metric \<Rightarrow> Metric" where
  "demo_stripped m = m\<lparr>Tags := [(''host'', ''a'')]\<rparr>"

definition demo_grouped :: world where
  "demo_grouped = demo_world\<lparr>ticks := 1, ranges := 1,
     heap := [demo_cpu, demo_mem, demo_stripped demo_cpu, demo_stripped demo_mem]\<rparr>"

definition demo_base :: URL where
  "demo_base = plain_URL ''https'' ''host'' ''/prefix''"

definition demo_socket :: URL where
  "demo_socket = plain_URL ''unix'' [] ''/var/run/influxdb.sock''"

text \<open>
  A base whose path prefix is not clean, and a socket base as \<open>url.Parse\<close> gives it for
  \<open>unix:///api%2Fv2%2Fwrite\<close>: the path decoded, the raw path as it was written.
\<close>

definition demo_unclean :: URL where
  "demo_unclean = plain_URL ''http'' ''host'' ''/a/../b''"

definition demo_raw_socket :: URL where
  "demo_raw_socket = (plain_URL ''unix'' [] ''/api/v2/write'')\<lparr>RawPath := ''/api%2Fv2%2Fwrite''\<rparr>"

text \<open>
  The write URL as the specification words it: for the http and https schemes the base
  with its path prefix, followed by \<open>/api/v2/write\<close> and the two query parameters; for
  the unix scheme \<open>http://127.0.0.1/api/v2/write\<close> and the two query parameters.
\<close>

definition spec_writeURL :: "URL \<Rightarrow> string \<Rightarrow> string \<Rightarrow> string" where
  "spec_writeURL loc org bucket =
     (if Scheme loc = ''unix'' then ''http://127.0.0.1''
      else Scheme loc @ ''://'' @ Host loc @ Path loc)
     @ ''/api/v2/write?bucket='' @ QueryEscape bucket @ ''&org='' @ QueryEscape org"

text \<open>The scheduler calls \<open>Write\<close> on the same client, batch after batch.\<close>

fun Write_calls :: "env \<Rightarrow> httpClient \<Rightarrow> world \<Rightarrow> addr list list \<Rightarrow> httpClient \<times> world" where
  "Write_calls E c w [] = (c, w)"
| "Write_calls E c w (metrics # later) =
     (case Write E c w metrics of (r, c', w') \<Rightarrow> Write_calls E c' w' later)"

definition demo_done :: httpClient where
  "demo_done = demo_client\<lparr>createBucketExecuted := [''b1'' \<mapsto> True, ''b0'' \<mapsto> True]\<rparr>"

definition demo_after :: world where
  "demo_after = demo_grouped\<lparr>exchanges := [demo_orgs_exchange,
        (demo_create_request ''b1'', Inr demo_created),
        (demo_write_request ''b1'' [demo_stripped demo_cpu], Inr demo_204),
        demo_orgs_exchange, (demo_create_request ''b0'', Inr demo_created),
        (demo_write_request ''b0'' [demo_stripped demo_mem], Inr demo_204)]\<rparr>"


definition demo_final :: world where
  "demo_final = demo_after\<lparr>ticks := 2, ranges := 2,
     heap := heap demo_after @ [demo_stripped demo_cpu, demo_stripped demo_mem],
     exchanges := exchanges demo_after
       @ [(demo_write_request ''b1'' [demo_stripped demo_cpu], Inr (demo_404 ''nf''))]\<rparr>"

definition demo_403 :: response where
  "demo_403 = demo_response 403 ''403 Forbidden'' [] []"

definition demo_refusing :: env where
  "demo_refusing = demo_env (\<lambda>k. demo_server demo_403 demo_204)"

definition demo_refused :: world where
  "demo_refused = demo_grouped\<lparr>
     exchanges := [demo_orgs_exchange, (demo_create_request ''b1'', Inr demo_403)],
     logs := [LogCreateFailed ''http://h'' ''b1''
                (ErrAPI (APIError 403 ''403 Forbidden'' ''403 Forbidden''))]\<rparr>"

definition demo_refused_again :: world where
  "demo_refused_again = demo_refused\<lparr>
     exchanges := exchanges demo_refused
       @ [demo_orgs_exchange, (demo_create_request ''b1'', Inr demo_403)],
     logs := logs demo_refused @ [LogCreateFailed ''http://h'' ''b1''
                (ErrAPI (APIError 403 ''403 Forbidden'' ''403 Forbidden''))]\<rparr>"

text \<open>
  Every metric in the batches is a copy made since the heap had \<open>n\<close> objects, and
  carries no routing tag.
\<close>

definition stripped_copies :: "httpClient \<Rightarrow> nat \<Rightarrow> batches \<Rightarrow> world \<Rightarrow> bool" where
  "stripped_copies c n bs w =
     (\<forall>(b, batch)\<in>set bs. \<forall>a\<in>set batch.
        n \<le> a \<and> a < length (heap w) \<and> GetTag (heap w ! a) (BucketTag c) = None)"

section \<open>Properties\<close>

lemmas url_defs =
  makeWriteURL_def makeCreateURL_def makeOrgIDURL_def Values_Set_def Values_Encode_def
  QueryEscape_def path_Join_def path_Clean_def clean_step_def URL_String_def
  EscapedPath_def EscapedFragment_def Userinfo_String_def validEncoding_def
  shouldEscape_def isAlnum_def hostSubDelims_def upperhex_def ishex_def unhex_def
  plain_URL_def

lemmas model_defs =
  writeBatch_def requestBodyReader_def deref_def makeWriteRequest_def makeAPIRequest_def
  addHeaders_def Header_Set_def Header_Get_def client_Do_def writeResponse_def
  errorDescription_def genericRespError_Error_def time_Now_def log_Printf_def
  OnClientError_def Let_def

lemmas demo_defs =
  demo_response_def demo_server_def demo_env_def demo_created_def demo_answers_def
  demo_client_def demo_cpu_def demo_mem_def demo_world_def demo_write_request_def
  demo_401_def demo_204_def demo_orgs_exchange_def demo_create_request_def
  demo_stripped_def demo_grouped_def demo_429_def demo_404_def Second_def

lemmas create_defs = ensureBucket_def CreateBucket_def getOrgID_def validateResponse_def

lemmas group_defs = Write_groups_def group_step_def GetTag_def Metric_Copy_def RemoveTag_def batches_append_def

subsection \<open>The response to a write\<close>

lemma writeResponse_exchanges:
  "writeResponse E c w b resp = (r, c', w') \<Longrightarrow> exchanges w' = exchanges w"
  by (auto simp: writeResponse_def Let_def log_Printf_def time_Now_def
      split: if_splits prod.splits)

lemma writeBatch_cases:
  assumes "writeBatch E c w b ms = (r, c', w')"
  shows "(r \<noteq> None \<and> c' = c \<and> w' = w)
     \<or> (\<exists>req err. r = Some err \<and> c' = c
           \<and> w' = OnClientError err (w\<lparr>exchanges := exchanges w @ [(req, Inl err)]\<rparr>))
     \<or> (\<exists>req resp. writeResponse E c (w\<lparr>exchanges := exchanges w @ [(req, Inr resp)]\<rparr>) b resp
               = (r, c', w'))"
  using assms
  by (auto simp: writeBatch_def client_Do_def Let_def split: sum.splits prod.splits)

lemma writeBatch_exchange:
  assumes "writeBatch E c w b ms = (r, c', w')"
    and "exchanges w' = exchanges w @ [(req, Inr resp)]"
  shows "writeResponse E c (w\<lparr>exchanges := exchanges w @ [(req, Inr resp)]\<rparr>) b resp
     = (r, c', w')"
proof -
  from writeBatch_cases [OF assms(1)] consider
    (unsent) "w' = w"
    | (failed) rq err
      where "w' = OnClientError err (w\<lparr>exchanges := exchanges w @ [(rq, Inl err)]\<rparr>)"
    | (answered) rq rs
      where "writeResponse E c (w\<lparr>exchanges := exchanges w @ [(rq, Inr rs)]\<rparr>) b rs
               = (r, c', w')"
    by blast
  then show ?thesis
  proof cases
    case unsent
    with assms(2) show ?thesis by simp
  next
    case failed
    with assms(2) show ?thesis by (simp add: OnClientError_def)
  next
    case answered
    from writeResponse_exchanges [OF answered] assms(2) have "rq = req" "rs = resp"
      by simp_all
    with answered show ?thesis by simp
  qed
qed

text \<open>
  C7. When the response to a write has status 204, 200, 201, 202, 206, 207 or 208,
  \<open>writeBatch\<close> returns no error, sets \<open>retryCount\<close> to 0 and changes nothing else in
  the client: \<open>retryTime\<close> is as before. Nothing is logged.
\<close>

theorem writeBatch_success:
  assumes "writeBatch E c w bucket metrics = (r, c', w')"
    and "exchanges w' = exchanges w @ [(req, Inr resp)]"
    and "StatusCode resp \<in> {204, 200, 201, 202, 206, 207, 208}"
  shows "r = None \<and> c' = c\<lparr>retryCount := 0\<rparr> \<and> retryCount c' = 0
     \<and> retryTime c' = retryTime c \<and> logs w' = logs w"
proof -
  have "writeResponse E c (w\<lparr>exchanges := exchanges w @ [(req, Inr resp)]\<rparr>) bucket resp
      = (r, c', w')"
    using assms(1,2) by (rule writeBatch_exchange)
  with assms(3) show ?thesis
    by (auto simp: writeResponse_def)
qed

lemma demo_write_204:
  "writeBatch (demo_answers (demo_response 204 ''204 No Content'' [] []))
     (demo_client\<lparr>retryCount := 7, retryTime := 42\<rparr>) demo_world ''b1'' [0]
   = (None, demo_client\<lparr>retryCount := 0, retryTime := 42\<rparr>,
      demo_world\<lparr>exchanges := [(demo_write_request ''b1'' [demo_cpu],
         Inr (demo_response 204 ''204 No Content'' [] []))]\<rparr>)"
  by (simp add: demo_defs url_defs model_defs)

theorem writeBatch_success_witness:
  "writeBatch (demo_answers (demo_response 204 ''204 No Content'' [] []))
     (demo_client\<lparr>retryCount := 7, retryTime := 42\<rparr>) demo_world ''b1'' [0]
   = (None, demo_client\<lparr>retryCount := 0, retryTime := 42\<rparr>,
      demo_world\<lparr>exchanges := [(demo_write_request ''b1'' [demo_cpu],
         Inr (demo_response 204 ''204 No Content'' [] []))]\<rparr>)
   \<and> StatusCode (demo_response 204 ''204 No Content'' [] []) \<in> {204, 200, 201, 202, 206, 207, 208}
   \<and> retryCount (demo_client\<lparr>retryCount := 0, retryTime := 42\<rparr>) = 0
   \<and> retryTime (demo_client\<lparr>retryCount := 0, retryTime := 42\<rparr>) = 42"
proof -
  have sent: "exchanges (demo_world\<lparr>exchanges := [(demo_write_request ''b1'' [demo_cpu],
         Inr (demo_response 204 ''204 No Content'' [] []))]\<rparr>)
      = exchanges demo_world @ [(demo_write_request ''b1'' [demo_cpu],
         Inr (demo_response 204 ''204 No Content'' [] []))]"
    by (simp add: demo_world_def)
  have ok: "StatusCode (demo_response 204 ''204 No Content'' [] [])
      \<in> {204, 200, 201, 202, 206, 207, 208}"
    by (simp add: demo_response_def)
  from writeBatch_success [OF demo_write_204 sent ok] demo_write_204 ok
  show ?thesis by simp
qed

subsection \<open>Throttling\<close>

lemma wrap_int_id:
  assumes "- (2 ^ (n - 1)) \<le> x" "x < 2 ^ (n - 1)"
  shows "wrap_int n x = x"
proof -
  have "0 \<le> x + 2 ^ (n - 1)" "x + 2 ^ (n - 1) < 2 * 2 ^ (n - 1)"
    using assms by simp_all
  then have "(x + 2 ^ (n - 1)) mod (2 * 2 ^ (n - 1)) = x + 2 ^ (n - 1)"
    by (rule mod_pos_pos_trivial)
  then show ?thesis by (simp add: wrap_int_def)
qed

lemma Duration_seconds:
  assumes "0 \<le> x" "x \<le> 60"
  shows "wrap_int 64 (Duration_of_float E (Finite x) * Second) = \<lfloor>x\<rfloor> * Second"
proof -
  have lo: "0 \<le> \<lfloor>x\<rfloor>" using assms(1) by simp
  have hi: "\<lfloor>x\<rfloor> \<le> 60" using assms(2) by (simp add: floor_le_iff)
  have d: "Duration_of_float E (Finite x) = \<lfloor>x\<rfloor>"
    using assms(1) lo hi by (simp add: Duration_of_float_def Let_def)
  have s: "0 \<le> Second" "60 * Second < 2 ^ (64 - 1)"
    by (simp_all add: Second_def)
  have "0 \<le> \<lfloor>x\<rfloor> * Second"
    using lo s(1) by (rule mult_nonneg_nonneg)
  moreover have "\<lfloor>x\<rfloor> * Second \<le> 60 * Second"
    using hi s(1) by (rule mult_right_mono)
  ultimately have "- (2 ^ (64 - 1)) \<le> \<lfloor>x\<rfloor> * Second" "\<lfloor>x\<rfloor> * Second < 2 ^ (64 - 1)"
    using s(2) by linarith+
  then show ?thesis unfolding d by (rule wrap_int_id)
qed

lemma getRetryDuration_floor:
  assumes "Header_Get h ''Retry-After'' = []
     \<or> ParseFloat E (Header_Get h ''Retry-After'') \<noteq> Some NaN"
  shows "getRetryDuration E c h =
     \<lfloor>min (max ((of_int (retryCount c))\<^sup>2 / 40)
          (if Header_Get h ''Retry-After'' = [] then 0
           else (case ParseFloat E (Header_Get h ''Retry-After'') of
                   Some (Finite x) \<Rightarrow> x
                 | Some PosInf \<Rightarrow> 60
                 | None \<Rightarrow> 10
                 | _ \<Rightarrow> 0)))
        60\<rfloor> * Second"
proof -
  let ?b = "(of_int (retryCount c))\<^sup>2 / (40::rat)"
  have b: "0 \<le> ?b" by simp
  have finite: "wrap_int 64 (Duration_of_float E
        (math_Min (math_Max (Finite ?b) (Finite y)) (Finite defaultMaxWait)) * Second)
      = \<lfloor>min (max ?b y) 60\<rfloor> * Second" for y
  proof -
    have m: "math_Min (math_Max (Finite ?b) (Finite y)) (Finite defaultMaxWait)
        = Finite (min (max ?b y) 60)"
      by (simp add: math_Min_def math_Max_def defaultMaxWait_def min_def max_def)
    have "0 \<le> min (max ?b y) 60" "min (max ?b y) 60 \<le> 60"
      using b by (simp_all add: le_max_iff_disj)
    then show ?thesis unfolding m by (rule Duration_seconds)
  qed
  show ?thesis
  proof (cases "Header_Get h ''Retry-After'' = []")
    case True
    then show ?thesis
      using finite [of 0] by (simp add: getRetryDuration_def Let_def)
  next
    case False
    show ?thesis
    proof (cases "ParseFloat E (Header_Get h ''Retry-After'')")
      case None
      with False show ?thesis
        using finite [of 10] by (simp add: getRetryDuration_def Let_def)
    next
      case (Some f)
      with assms False have nn: "f \<noteq> NaN" by simp
      show ?thesis
      proof (cases f)
        case (Finite y)
        with Some False show ?thesis
          using finite [of y] by (simp add: getRetryDuration_def Let_def)
      next
        case PosInf
        have "wrap_int 64 (Duration_of_float E (Finite 60) * Second) = \<lfloor>60::rat\<rfloor> * Second"
          by (rule Duration_seconds) simp_all
        with PosInf Some False b show ?thesis
          by (simp add: getRetryDuration_def Let_def defaultMaxWait_def math_Min_def
              math_Max_def)
      next
        case NegInf
        have m: "max ?b 0 = ?b" "max ?b ?b = ?b" using b by simp_all
        have "math_Max (Finite ?b) NegInf = Finite ?b"
          by (simp add: math_Max_def)
        moreover have "math_Max (Finite ?b) (Finite ?b) = Finite ?b"
          by (simp add: math_Max_def)
        ultimately show ?thesis
          using NegInf Some False finite [of ?b] unfolding m
          by (simp add: getRetryDuration_def Let_def)
      next
        case NaN
        with nn show ?thesis by simp
      qed
    qed
  qed
qed

text \<open>
  A \<open>Retry-After\<close> header that parses to a not-a-number makes the whole delay a
  not-a-number: the delay is then what the platform's conversion to an integer gives.
\<close>

lemma getRetryDuration_NaN:
  assumes "Header_Get h ''Retry-After'' \<noteq> []"
    and "ParseFloat E (Header_Get h ''Retry-After'') = Some NaN"
  shows "getRetryDuration E c h = wrap_int 64 (Int64OfFloat E NaN * Second)"
  using assms
  by (simp add: getRetryDuration_def Let_def Duration_of_float_def math_Min_def math_Max_def)

text \<open>
  C2, amended. When the response to a write has status 429, 502, 503 or 504,
  \<open>writeBatch\<close> adds 1 to \<open>retryCount\<close> and sets \<open>retryTime\<close> to the clock reading plus a
  whole number of seconds: \<open>min(max(backoffSeconds, retryAfterSeconds), 60)\<close> rounded
  down, where \<open>backoffSeconds\<close> is the square of the new \<open>retryCount\<close> over 40 and
  \<open>retryAfterSeconds\<close> is the \<open>Retry-After\<close> header parsed as seconds (a positive
  infinity counts as 60 and a negative one as 0), 10 when it does not parse, 0 when it
  is absent or empty. The call returns the waiting error and logs the delay. This holds
  when \<open>retryCount + 1\<close> fits in an \<open>int\<close> and the header does not parse to a
  not-a-number.
\<close>

theorem writeBatch_throttle:
  assumes "writeBatch E c w bucket metrics = (r, c', w')"
    and "exchanges w' = exchanges w @ [(req, Inr resp)]"
    and "StatusCode resp \<in> {429, 502, 503, 504}"
    and "- (2 ^ (IntSize E - 1)) \<le> retryCount c + 1"
    and "retryCount c + 1 < 2 ^ (IntSize E - 1)"
    and "Header_Get (Header resp) ''Retry-After'' = []
       \<or> ParseFloat E (Header_Get (Header resp) ''Retry-After'') \<noteq> Some NaN"
  shows "(let retryAfter = Header_Get (Header resp) ''Retry-After'';
              retryAfterSeconds =
                (if retryAfter = [] then 0
                 else (case ParseFloat E retryAfter of
                         Some (Finite x) \<Rightarrow> x
                       | Some PosInf \<Rightarrow> 60
                       | None \<Rightarrow> 10
                       | _ \<Rightarrow> 0));
              backoffSeconds = (of_int (retryCount c + 1))\<^sup>2 / 40;
              delay = \<lfloor>min (max backoffSeconds retryAfterSeconds) 60\<rfloor> * Second
          in r = Some (ErrWaiting delay) \<and> retryCount c' = retryCount c + 1
             \<and> retryTime c' = Now E (ticks w) + delay
             \<and> logs w' = logs w @ [LogRetry delay (Status resp)])"
proof -
  have run: "writeResponse E c (w\<lparr>exchanges := exchanges w @ [(req, Inr resp)]\<rparr>) bucket resp
      = (r, c', w')"
    using assms(1,2) by (rule writeBatch_exchange)
  have count: "wrap_int (IntSize E) (retryCount c + 1) = retryCount c + 1"
    using assms(4,5) by (rule wrap_int_id)
  have delay: "getRetryDuration E (c\<lparr>retryCount := retryCount c + 1\<rparr>) (Header resp) =
     \<lfloor>min (max ((of_int (retryCount c + 1))\<^sup>2 / 40)
          (if Header_Get (Header resp) ''Retry-After'' = [] then 0
           else (case ParseFloat E (Header_Get (Header resp) ''Retry-After'') of
                   Some (Finite x) \<Rightarrow> x
                 | Some PosInf \<Rightarrow> 60
                 | None \<Rightarrow> 10
                 | _ \<Rightarrow> 0)))
        60\<rfloor> * Second"
    using getRetryDuration_floor [OF assms(6), of "c\<lparr>retryCount := retryCount c + 1\<rparr>"]
    by simp
  from assms(3) run show ?thesis
    unfolding Let_def
    by (elim insertE emptyE)
       (simp_all add: writeResponse_def Let_def count delay time_Now_def log_Printf_def,
        auto)
qed

lemma floor_45_2: "\<lfloor>(45::rat) / 2\<rfloor> = 22"
  by (simp add: floor_eq_iff)

lemma demo_wrap_count: "wrap_int 64 (n + 1) = n + 1" if "0 \<le> n" "n < 100" for n :: int
  using that by (intro wrap_int_id) simp_all

lemma demo_429_run:
  "writeBatch (demo_answers (demo_429 [])) (demo_client\<lparr>retryCount := 29\<rparr>) demo_world ''b1'' [0]
   = (Some (ErrWaiting (22 * Second)),
      demo_client\<lparr>retryCount := 30, retryTime := 100 * Second + 22 * Second\<rparr>,
      demo_world\<lparr>exchanges := [(demo_write_request ''b1'' [demo_cpu], Inr (demo_429 []))],
        ticks := 1, logs := [LogRetry (22 * Second) ''429 Too Many Requests'']\<rparr>)"
proof -
  have d: "getRetryDuration (demo_answers (demo_429 [])) (demo_client\<lparr>retryCount := 30\<rparr>)
      (Header (demo_429 [])) = 22 * Second"
    by (subst getRetryDuration_floor)
       (simp_all add: demo_defs demo_429_def Header_Get_def floor_45_2)
  have n: "wrap_int 64 (29 + 1) = 30"
    using demo_wrap_count [of 29] by simp
  show ?thesis
    using d n
    by (simp add: demo_defs demo_429_def url_defs model_defs Second_def)
qed

text \<open>
  With no \<open>Retry-After\<close> header and \<open>retryCount\<close> reaching 30, the specification's delay
  is 22.5 seconds; the client waits 22.
\<close>

theorem writeBatch_throttle_counterexample:
  "writeBatch (demo_answers (demo_429 [])) (demo_client\<lparr>retryCount := 29\<rparr>) demo_world ''b1'' [0]
   = (Some (ErrWaiting (22 * Second)),
      demo_client\<lparr>retryCount := 30, retryTime := 100 * Second + 22 * Second\<rparr>,
      demo_world\<lparr>exchanges := [(demo_write_request ''b1'' [demo_cpu], Inr (demo_429 []))],
        ticks := 1, logs := [LogRetry (22 * Second) ''429 Too Many Requests'']\<rparr>)
   \<and> Now (demo_answers (demo_429 [])) (ticks demo_world) = 100 * Second
   \<and> spec_delaySeconds (demo_answers (demo_429 [])) 30 (Header (demo_429 [])) = 45 / 2
   \<and> of_int (100 * Second + 22 * Second)
       \<noteq> of_int (100 * Second)
         + spec_delaySeconds (demo_answers (demo_429 [])) 30 (Header (demo_429 [])) * of_int Second"
  using demo_429_run
  by (simp add: spec_delaySeconds_def spec_retryAfterSeconds_def demo_defs demo_429_def Second_def)

lemma demo_429_hint:
  "writeBatch (demo_answers (demo_429 [(''Retry-After'', ''5'')])) demo_client demo_world ''b1'' [0]
   = (Some (ErrWaiting (5 * Second)),
      demo_client\<lparr>retryCount := 1, retryTime := 100 * Second + 5 * Second\<rparr>,
      demo_world\<lparr>exchanges := [(demo_write_request ''b1'' [demo_cpu],
           Inr (demo_429 [(''Retry-After'', ''5'')]))],
        ticks := 1, logs := [LogRetry (5 * Second) ''429 Too Many Requests'']\<rparr>)"
proof -
  have d: "getRetryDuration (demo_answers (demo_429 [(''Retry-After'', ''5'')]))
      (demo_client\<lparr>retryCount := 1\<rparr>) (Header (demo_429 [(''Retry-After'', ''5'')]))
      = 5 * Second"
    by (subst getRetryDuration_floor)
       (simp_all add: demo_defs demo_429_def Header_Get_def max_def)
  have n: "wrap_int 64 (0 + 1) = 1"
    using demo_wrap_count [of 0] by simp
  show ?thesis
    using d n
    by (simp add: demo_defs demo_429_def url_defs model_defs Second_def)
qed

text \<open>
  On a platform whose conversion of a not-a-number to an integer gives the least
  \<open>int64\<close> (amd64), a \<open>Retry-After\<close> header reading \<open>NaN\<close> gives no delay at all.
\<close>

lemma demo_429_NaN:
  "getRetryDuration (demo_answers (demo_429 [(''Retry-After'', ''NaN'')]))
     (demo_client\<lparr>retryCount := 30\<rparr>) (Header (demo_429 [(''Retry-After'', ''NaN'')])) = 0"
  by (subst getRetryDuration_NaN)
     (simp_all add: demo_defs demo_429_def Header_Get_def wrap_int_def Second_def)

theorem writeBatch_throttle_witness:
  "writeBatch (demo_answers (demo_429 [(''Retry-After'', ''5'')])) demo_client demo_world ''b1'' [0]
   = (Some (ErrWaiting (5 * Second)),
      demo_client\<lparr>retryCount := 1, retryTime := 100 * Second + 5 * Second\<rparr>,
      demo_world\<lparr>exchanges := [(demo_write_request ''b1'' [demo_cpu],
           Inr (demo_429 [(''Retry-After'', ''5'')]))],
        ticks := 1, logs := [LogRetry (5 * Second) ''429 Too Many Requests'']\<rparr>)
   \<and> StatusCode (demo_429 [(''Retry-After'', ''5'')]) \<in> {429, 502, 503, 504}
   \<and> retryCount demo_client + 1 < 2 ^ (IntSize (demo_answers (demo_429 [(''Retry-After'', ''5'')])) - 1)
   \<and> ParseFloat (demo_answers (demo_429 [(''Retry-After'', ''5'')]))
        (Header_Get (Header (demo_429 [(''Retry-After'', ''5'')])) ''Retry-After'')
       = Some (Finite 5)
   \<and> \<lfloor>min (max ((of_int (retryCount demo_client + 1))\<^sup>2 / 40) (5::rat)) 60\<rfloor> * Second = 5 * Second"
proof -
  let ?resp = "demo_429 [(''Retry-After'', ''5'')]"
  let ?E = "demo_answers ?resp"
  let ?w = "demo_world\<lparr>exchanges := [(demo_write_request ''b1'' [demo_cpu], Inr ?resp)],
        ticks := 1, logs := [LogRetry (5 * Second) ''429 Too Many Requests'']\<rparr>"
  have sent: "exchanges ?w = exchanges demo_world @ [(demo_write_request ''b1'' [demo_cpu], Inr ?resp)]"
    by (simp add: demo_world_def)
  have st: "StatusCode ?resp \<in> {429, 502, 503, 504}"
    by (simp add: demo_429_def demo_response_def)
  have lo: "- (2 ^ (IntSize ?E - 1)) \<le> retryCount demo_client + 1"
    by (simp add: demo_defs)
  have hi: "retryCount demo_client + 1 < 2 ^ (IntSize ?E - 1)"
    by (simp add: demo_defs)
  have parsed: "ParseFloat ?E (Header_Get (Header ?resp) ''Retry-After'') = Some (Finite 5)"
    by (simp add: demo_defs demo_429_def Header_Get_def)
  then have nn: "Header_Get (Header ?resp) ''Retry-After'' = []
       \<or> ParseFloat ?E (Header_Get (Header ?resp) ''Retry-After'') \<noteq> Some NaN"
    by simp
  from writeBatch_throttle [OF demo_429_hint sent st lo hi nn] demo_429_hint st hi parsed
  show ?thesis
    by (simp add: Let_def demo_defs demo_429_def Header_Get_def)
qed

subsection \<open>Dropped writes\<close>

lemma status_digits_4xx:
  assumes "400 \<le> n" "n < 500"
  shows "hd (status_digits n) = CHR ''4''"
proof -
  from assms have "n div 100 = 4" by linarith
  then show ?thesis by (simp add: status_digits_def)
qed

lemma status_line_4xx:
  assumes "status_line_matches resp" "400 \<le> StatusCode resp" "StatusCode resp < 500"
  shows "0 < length (Status resp) \<and> Status resp ! 0 = CHR ''4''"
proof -
  from assms(1) have t: "take 3 (Status resp) = status_digits (StatusCode resp)"
    by (simp add: status_line_matches_def)
  then have ne: "Status resp \<noteq> []" by (auto simp: status_digits_def)
  from t have "hd (take 3 (Status resp)) = CHR ''4''"
    using status_digits_4xx [OF assms(2,3)] by simp
  with ne show ?thesis by (cases "Status resp") simp_all
qed

text \<open>
  C3, amended. When the response to a write has status 400, 413, 422 or 406, or any
  other 4xx status except 401, 403 and 429 with a description that does not contain
  \<open>not found: bucket\<close>, \<open>writeBatch\<close> logs the failure, returns no error and leaves the
  client as it was; one request was sent. When the description of such another 4xx
  response contains \<open>not found: bucket\<close>, \<open>writeBatch\<close> returns a
  \<open>BucketNotFoundError\<close> and logs nothing.
\<close>

theorem writeBatch_dropped:
  assumes "writeBatch E c w bucket metrics = (r, c', w')"
    and "exchanges w' = exchanges w @ [(req, Inr resp)]"
  shows "(StatusCode resp \<in> {400, 413, 422, 406}
          \<or> (400 \<le> StatusCode resp \<and> StatusCode resp < 500
              \<and> StatusCode resp \<notin> {401, 403, 429}
              \<and> status_line_matches resp
              \<and> \<not> Contains (errorDescription E resp) errStringBucketNotFound)
          \<longrightarrow> r = None \<and> c' = c
              \<and> w' = w\<lparr>exchanges := exchanges w @ [(req, Inr resp)],
                       logs := logs w @ [LogDropped (Status resp) (errorDescription E resp)]\<rparr>)
       \<and> (400 \<le> StatusCode resp \<and> StatusCode resp < 500
           \<and> StatusCode resp \<notin> {400, 413, 422, 406, 401, 403, 429}
           \<and> Contains (errorDescription E resp) errStringBucketNotFound
          \<longrightarrow> r = Some (BucketNotFoundError
                  (APIError (StatusCode resp) (Status resp) (errorDescription E resp)) bucket)
              \<and> c' = c \<and> w' = w\<lparr>exchanges := exchanges w @ [(req, Inr resp)]\<rparr>)"
proof -
  have run: "writeResponse E c (w\<lparr>exchanges := exchanges w @ [(req, Inr resp)]\<rparr>) bucket resp
      = (r, c', w')"
    using assms(1,2) by (rule writeBatch_exchange)
  have listed: "r = None \<and> c' = c
     \<and> w' = w\<lparr>exchanges := exchanges w @ [(req, Inr resp)],
              logs := logs w @ [LogDropped (Status resp) (errorDescription E resp)]\<rparr>"
    if "StatusCode resp \<in> {400, 413, 422, 406}"
    using that run by (auto simp: writeResponse_def Let_def log_Printf_def)
  have other: "r = None \<and> c' = c
     \<and> w' = w\<lparr>exchanges := exchanges w @ [(req, Inr resp)],
              logs := logs w @ [LogDropped (Status resp) (errorDescription E resp)]\<rparr>"
    if o: "400 \<le> StatusCode resp \<and> StatusCode resp < 500
           \<and> StatusCode resp \<notin> {401, 403, 429}
           \<and> status_line_matches resp
           \<and> \<not> Contains (errorDescription E resp) errStringBucketNotFound"
  proof -
    from o have "0 < length (Status resp) \<and> Status resp ! 0 = CHR ''4''"
      using status_line_4xx by blast
    with run o show ?thesis
      by (auto simp: writeResponse_def Let_def log_Printf_def split: if_splits)
  qed
  have missing: "r = Some (BucketNotFoundError
                  (APIError (StatusCode resp) (Status resp) (errorDescription E resp)) bucket)
              \<and> c' = c \<and> w' = w\<lparr>exchanges := exchanges w @ [(req, Inr resp)]\<rparr>"
    if m: "400 \<le> StatusCode resp \<and> StatusCode resp < 500
           \<and> StatusCode resp \<notin> {400, 413, 422, 406, 401, 403, 429}
           \<and> Contains (errorDescription E resp) errStringBucketNotFound"
    using run m by (auto simp: writeResponse_def Let_def split: if_splits)
  from listed other missing show ?thesis by blast
qed

text \<open>
  A 404 whose description says that the bucket was not found is returned to the caller
  as a \<open>BucketNotFoundError\<close>, and nothing is logged.
\<close>

lemma demo_404_nf:
  "writeBatch (demo_answers (demo_404 ''nf'')) demo_client demo_world ''b1'' [0]
   = (Some (BucketNotFoundError
        (APIError 404 ''404 Not Found'' ''not found: bucket b1 not found'') ''b1''),
      demo_client,
      demo_world\<lparr>exchanges := [(demo_write_request ''b1'' [demo_cpu], Inr (demo_404 ''nf''))]\<rparr>)"
  by (simp add: demo_defs url_defs model_defs errStringBucketNotFound_def)

theorem writeBatch_dropped_counterexample:
  "StatusCode (demo_404 ''nf'') = 404
   \<and> writeBatch (demo_answers (demo_404 ''nf'')) demo_client demo_world ''b1'' [0]
     = (Some (BucketNotFoundError
          (APIError 404 ''404 Not Found'' ''not found: bucket b1 not found'') ''b1''),
        demo_client,
        demo_world\<lparr>exchanges := [(demo_write_request ''b1'' [demo_cpu], Inr (demo_404 ''nf''))]\<rparr>)
   \<and> fst (writeBatch (demo_answers (demo_404 ''nf'')) demo_client demo_world ''b1'' [0]) \<noteq> None"
  using demo_404_nf by (simp add: demo_defs)

lemma demo_404_run:
  "writeBatch (demo_answers (demo_404 ''gone'')) demo_client demo_world ''b1'' [0]
   = (None, demo_client,
      demo_world\<lparr>exchanges := exchanges demo_world @ [(demo_write_request ''b1'' [demo_cpu], Inr (demo_404 ''gone''))],
        logs := logs demo_world @ [LogDropped ''404 Not Found'' ''404 Not Found'']\<rparr>)"
  by (simp add: demo_defs demo_404_def url_defs model_defs errStringBucketNotFound_def)

theorem writeBatch_dropped_witness:
  "writeBatch (demo_answers (demo_404 ''gone'')) demo_client demo_world ''b1'' [0]
   = (None, demo_client,
      demo_world\<lparr>exchanges := exchanges demo_world @ [(demo_write_request ''b1'' [demo_cpu], Inr (demo_404 ''gone''))],
        logs := logs demo_world @ [LogDropped ''404 Not Found'' ''404 Not Found'']\<rparr>)
   \<and> 400 \<le> StatusCode (demo_404 ''gone'') \<and> StatusCode (demo_404 ''gone'') < 500
   \<and> StatusCode (demo_404 ''gone'') \<notin> {401, 403, 429}
   \<and> status_line_matches (demo_404 ''gone'')
   \<and> \<not> Contains (errorDescription (demo_answers (demo_404 ''gone'')) (demo_404 ''gone''))
          errStringBucketNotFound
   \<and> StatusCode (demo_404 ''nf'') \<notin> {400, 413, 422, 406, 401, 403, 429}
   \<and> Contains (errorDescription (demo_answers (demo_404 ''nf'')) (demo_404 ''nf''))
          errStringBucketNotFound
   \<and> fst (writeBatch (demo_answers (demo_404 ''nf'')) demo_client demo_world ''b1'' [0])
       = Some (BucketNotFoundError
           (APIError 404 ''404 Not Found'' ''not found: bucket b1 not found'') ''b1'')"
proof -
  let ?resp = "demo_404 ''gone''"
  let ?E = "demo_answers ?resp"
  let ?w = "demo_world\<lparr>exchanges := exchanges demo_world @ [(demo_write_request ''b1'' [demo_cpu], Inr ?resp)],
        logs := logs demo_world @ [LogDropped ''404 Not Found'' ''404 Not Found'']\<rparr>"
  have sent: "exchanges ?w = exchanges demo_world @ [(demo_write_request ''b1'' [demo_cpu], Inr ?resp)]"
    by simp
  have other: "400 \<le> StatusCode ?resp \<and> StatusCode ?resp < 500
           \<and> StatusCode ?resp \<notin> {401, 403, 429}
           \<and> status_line_matches ?resp
           \<and> \<not> Contains (errorDescription ?E ?resp) errStringBucketNotFound"
    by (simp add: demo_defs status_line_matches_def status_digits_def
        errorDescription_def errStringBucketNotFound_def)
  have missing: "400 \<le> StatusCode (demo_404 ''nf'') \<and> StatusCode (demo_404 ''nf'') < 500
      \<and> StatusCode (demo_404 ''nf'') \<notin> {400, 413, 422, 406, 401, 403, 429}
      \<and> Contains (errorDescription (demo_answers (demo_404 ''nf'')) (demo_404 ''nf''))
          errStringBucketNotFound"
    by (simp add: demo_defs errorDescription_def genericRespError_Error_def
        errStringBucketNotFound_def)
  have sent2: "exchanges (demo_world\<lparr>exchanges :=
        [(demo_write_request ''b1'' [demo_cpu], Inr (demo_404 ''nf''))]\<rparr>)
      = exchanges demo_world @ [(demo_write_request ''b1'' [demo_cpu], Inr (demo_404 ''nf''))]"
    by (simp add: demo_world_def)
  from writeBatch_dropped [OF demo_404_run sent] other
  have dropped: "writeBatch ?E demo_client demo_world ''b1'' [0] = (None, demo_client, ?w)"
    using demo_404_run by blast
  from writeBatch_dropped [OF demo_404_nf sent2] missing
  have refused: "fst (writeBatch (demo_answers (demo_404 ''nf'')) demo_client demo_world ''b1'' [0])
       = Some (BucketNotFoundError
           (APIError 404 ''404 Not Found'' ''not found: bucket b1 not found'') ''b1'')"
    unfolding demo_404_nf by (simp add: demo_defs errorDescription_def genericRespError_Error_def)
  from dropped other missing refused show ?thesis by blast
qed

subsection \<open>The loop over the batches\<close>

lemma write_batches_append:
  "write_batches E c w pre = (None, c2, w2) \<Longrightarrow>
   write_batches E c w (pre @ gs) = write_batches E c2 w2 gs"
proof (induction pre arbitrary: c w)
  case Nil
  then show ?case by simp
next
  case (Cons g pre)
  obtain bucket batch where g: "g = (bucket, batch)" by (cases g)
  obtain c1 w1 where e: "ensureBucket E c w bucket = (c1, w1)" by (cases "ensureBucket E c w bucket")
  obtain r c3 w3 where wb: "writeBatch E c1 w1 bucket batch = (r, c3, w3)"
    by (cases "writeBatch E c1 w1 bucket batch")
  from Cons.prems g e wb have "r = None" by (cases r) simp_all
  with Cons g e wb show ?case by simp
qed

lemma write_batches_split:
  "write_batches E c w (pre @ (bucket, batch) # post) = (None, c', w') \<Longrightarrow>
   \<exists>c2 w2 c3 w3 c4 w4.
     write_batches E c w pre = (None, c2, w2) \<and> ensureBucket E c2 w2 bucket = (c3, w3)
     \<and> writeBatch E c3 w3 bucket batch = (None, c4, w4)
     \<and> write_batches E c4 w4 post = (None, c', w')"
proof (induction pre arbitrary: c w)
  case Nil
  then show ?case by (auto split: prod.splits option.splits)
next
  case (Cons g pre)
  obtain b1 m1 where g: "g = (b1, m1)" by (cases g)
  obtain c1 w1 where e: "ensureBucket E c w b1 = (c1, w1)" by (cases "ensureBucket E c w b1")
  obtain r c3 w3 where wb: "writeBatch E c1 w1 b1 m1 = (r, c3, w3)"
    by (cases "writeBatch E c1 w1 b1 m1")
  from Cons.prems g e wb have r: "r = None" by (cases r) simp_all
  with Cons.prems g e wb
  have "write_batches E c3 w3 (pre @ (bucket, batch) # post) = (None, c', w')" by simp
  from Cons.IH [OF this] g e wb r show ?case by simp
qed

lemma writeBatch_None:
  assumes "writeBatch E c w b ms = (None, c', w')"
  shows "\<exists>req resp. exchanges w' = exchanges w @ [(req, Inr resp)]
     \<and> (StatusCode resp \<in> {204, 200, 201, 202, 206, 207, 208}
        \<or> StatusCode resp \<in> {400, 413, 422, 406}
        \<or> (StatusCode resp \<notin> {401, 403, 429, 503, 502, 504}
            \<and> \<not> Contains (errorDescription E resp) errStringBucketNotFound
            \<and> 0 < length (Status resp) \<and> Status resp ! 0 = CHR ''4''))"
proof -
  from writeBatch_cases [OF assms] obtain req resp
    where run: "writeResponse E c (w\<lparr>exchanges := exchanges w @ [(req, Inr resp)]\<rparr>) b resp
               = (None, c', w')"
    by auto
  from writeResponse_exchanges [OF run]
  have "exchanges w' = exchanges w @ [(req, Inr resp)]" by simp
  moreover from run have "StatusCode resp \<in> {204, 200, 201, 202, 206, 207, 208}
        \<or> StatusCode resp \<in> {400, 413, 422, 406}
        \<or> (StatusCode resp \<notin> {401, 403, 429, 503, 502, 504}
            \<and> \<not> Contains (errorDescription E resp) errStringBucketNotFound
            \<and> 0 < length (Status resp) \<and> Status resp ! 0 = CHR ''4'')"
    by (auto simp: writeResponse_def Let_def split: if_splits prod.splits)
  ultimately show ?thesis by blast
qed

text \<open>
  C1. In a \<open>Write\<close> with a routing tag whose gate is open, take any batch of the call.
  If the batches before it were written without error and \<open>writeBatch\<close> returns an
  error for it (as it does for an unauthorized, a throttling, a bucket-not-found and a
  server-error response), \<open>Write\<close> returns that error with the client and the world as
  they are right after that \<open>writeBatch\<close>: nothing is sent for the batches after it.
  And if \<open>Write\<close> returns no error, the batch was written and its response was a
  success or one of those that drop the data.
\<close>

theorem Write_stops_at_first_error:
  assumes routing: "BucketTag c \<noteq> []"
    and gate: "\<not> Now E (ticks w) < retryTime c"
    and groups: "Write_groups E c (w\<lparr>ticks := Suc (ticks w)\<rparr>) metrics
                   = Inr (pre @ (bucket, batch) # post, w1)"
  shows "(\<forall>c2 w2 c3 w3 err c4 w4.
            write_batches E c w1 pre = (None, c2, w2)
            \<and> ensureBucket E c2 w2 bucket = (c3, w3)
            \<and> writeBatch E c3 w3 bucket batch = (Some err, c4, w4)
            \<longrightarrow> Write E c w metrics = (Some err, c4, w4))
       \<and> (\<forall>c' w'. Write E c w metrics = (None, c', w') \<longrightarrow>
            (\<exists>c2 w2 c3 w3 c4 w4 req resp.
               write_batches E c w1 pre = (None, c2, w2)
               \<and> ensureBucket E c2 w2 bucket = (c3, w3)
               \<and> writeBatch E c3 w3 bucket batch = (None, c4, w4)
               \<and> exchanges w4 = exchanges w3 @ [(req, Inr resp)]
               \<and> (StatusCode resp \<in> {204, 200, 201, 202, 206, 207, 208}
                  \<or> StatusCode resp \<in> {400, 413, 422, 406}
                  \<or> (StatusCode resp \<notin> {401, 403, 429, 503, 502, 504}
                      \<and> \<not> Contains (errorDescription E resp) errStringBucketNotFound
                      \<and> 0 < length (Status resp) \<and> Status resp ! 0 = CHR ''4''))))"
proof -
  have run: "Write E c w metrics = write_batches E c w1 (pre @ (bucket, batch) # post)"
    using routing gate groups by (simp add: Write_def Write_send_def time_Now_def)
  have stop: "Write E c w metrics = (Some err, c4, w4)"
    if "write_batches E c w1 pre = (None, c2, w2)"
      and "ensureBucket E c2 w2 bucket = (c3, w3)"
      and "writeBatch E c3 w3 bucket batch = (Some err, c4, w4)"
    for c2 w2 c3 w3 err c4 w4
    using that run by (simp add: write_batches_append)
  have all: "\<exists>c2 w2 c3 w3 c4 w4 req resp.
               write_batches E c w1 pre = (None, c2, w2)
               \<and> ensureBucket E c2 w2 bucket = (c3, w3)
               \<and> writeBatch E c3 w3 bucket batch = (None, c4, w4)
               \<and> exchanges w4 = exchanges w3 @ [(req, Inr resp)]
               \<and> (StatusCode resp \<in> {204, 200, 201, 202, 206, 207, 208}
                  \<or> StatusCode resp \<in> {400, 413, 422, 406}
                  \<or> (StatusCode resp \<notin> {401, 403, 429, 503, 502, 504}
                      \<and> \<not> Contains (errorDescription E resp) errStringBucketNotFound
                      \<and> 0 < length (Status resp) \<and> Status resp ! 0 = CHR ''4''))"
    if "Write E c w metrics = (None, c', w')" for c' w'
  proof -
    from that run have "write_batches E c w1 (pre @ (bucket, batch) # post) = (None, c', w')"
      by simp
    from write_batches_split [OF this] obtain c2 w2 c3 w3 c4 w4
      where a: "write_batches E c w1 pre = (None, c2, w2)"
        and b: "ensureBucket E c2 w2 bucket = (c3, w3)"
        and d: "writeBatch E c3 w3 bucket batch = (None, c4, w4)"
      by blast
    from writeBatch_None [OF d] a b d show ?thesis by blast
  qed
  from stop all show ?thesis by blast
qed

lemma demo_groups:
  "Write_groups (demo_answers written) demo_client (demo_world\<lparr>ticks := Suc (ticks demo_world)\<rparr>) [0, 1]
   = Inr ([(''b1'', [2]), (''b0'', [3])], demo_grouped)"
  by (simp add: demo_defs model_defs group_defs)

lemma demo_ensure_b1:
  "ensureBucket (demo_answers written) demo_client demo_grouped ''b1''
   = (demo_client\<lparr>createBucketExecuted := [''b1'' \<mapsto> True]\<rparr>,
      demo_grouped\<lparr>exchanges := [demo_orgs_exchange, (demo_create_request ''b1'', Inr demo_created)]\<rparr>)"
  by (simp add: demo_defs url_defs model_defs create_defs)

lemma demo_write_b1_401:
  "writeBatch (demo_answers demo_401) (demo_client\<lparr>createBucketExecuted := [''b1'' \<mapsto> True]\<rparr>)
     (demo_grouped\<lparr>exchanges := [demo_orgs_exchange, (demo_create_request ''b1'', Inr demo_created)]\<rparr>)
     ''b1'' [2]
   = (Some (ErrFailedToWrite ''401 Unauthorized'' ''401 Unauthorized''),
      demo_client\<lparr>createBucketExecuted := [''b1'' \<mapsto> True]\<rparr>,
      demo_grouped\<lparr>exchanges := [demo_orgs_exchange, (demo_create_request ''b1'', Inr demo_created),
        (demo_write_request ''b1'' [demo_stripped demo_cpu], Inr demo_401)]\<rparr>)"
  by (simp add: demo_defs url_defs model_defs)

lemma demo_Write_204:
  "Write (demo_answers demo_204) demo_client demo_world [0, 1]
   = (None, demo_client\<lparr>createBucketExecuted := [''b1'' \<mapsto> True, ''b0'' \<mapsto> True]\<rparr>,
      demo_grouped\<lparr>exchanges := [demo_orgs_exchange, (demo_create_request ''b1'', Inr demo_created),
        (demo_write_request ''b1'' [demo_stripped demo_cpu], Inr demo_204),
        demo_orgs_exchange, (demo_create_request ''b0'', Inr demo_created),
        (demo_write_request ''b0'' [demo_stripped demo_mem], Inr demo_204)]\<rparr>)"
  by (simp add: Write_def Write_send_def demo_defs url_defs model_defs create_defs group_defs Second_def)


theorem Write_stops_at_first_error_witness:
  "BucketTag demo_client \<noteq> []
   \<and> \<not> Now (demo_answers demo_401) (ticks demo_world) < retryTime demo_client
   \<and> Write_groups (demo_answers demo_401) demo_client
        (demo_world\<lparr>ticks := Suc (ticks demo_world)\<rparr>) [0, 1]
       = Inr ([] @ (''b1'', [2]) # [(''b0'', [3])], demo_grouped)
   \<and> write_batches (demo_answers demo_401) demo_client demo_grouped []
       = (None, demo_client, demo_grouped)
   \<and> Write (demo_answers demo_401) demo_client demo_world [0, 1]
       = (Some (ErrFailedToWrite ''401 Unauthorized'' ''401 Unauthorized''),
          demo_client\<lparr>createBucketExecuted := [''b1'' \<mapsto> True]\<rparr>,
          demo_grouped\<lparr>exchanges := [demo_orgs_exchange,
            (demo_create_request ''b1'', Inr demo_created),
            (demo_write_request ''b1'' [demo_stripped demo_cpu], Inr demo_401)]\<rparr>)
   \<and> \<not> Now (demo_answers demo_204) (ticks demo_world) < retryTime demo_client
   \<and> Write_groups (demo_answers demo_204) demo_client
        (demo_world\<lparr>ticks := Suc (ticks demo_world)\<rparr>) [0, 1]
       = Inr ([(''b1'', [2])] @ (''b0'', [3]) # [], demo_grouped)
   \<and> Write (demo_answers demo_204) demo_client demo_world [0, 1]
       = (None, demo_client\<lparr>createBucketExecuted := [''b1'' \<mapsto> True, ''b0'' \<mapsto> True]\<rparr>,
          demo_grouped\<lparr>exchanges := [demo_orgs_exchange,
            (demo_create_request ''b1'', Inr demo_created),
            (demo_write_request ''b1'' [demo_stripped demo_cpu], Inr demo_204),
            demo_orgs_exchange, (demo_create_request ''b0'', Inr demo_created),
            (demo_write_request ''b0'' [demo_stripped demo_mem], Inr demo_204)]\<rparr>)
   \<and> (\<exists>c3 w3 c4 w4. writeBatch (demo_answers demo_204) c3 w3 ''b0'' [3] = (None, c4, w4))"
proof -
  have routing: "BucketTag demo_client \<noteq> []"
    by (simp add: demo_client_def)
  have gate: "\<not> Now (demo_answers written) (ticks demo_world) < retryTime demo_client"
    for written
    by (simp add: demo_defs)
  have g1: "Write_groups (demo_answers demo_401) demo_client
        (demo_world\<lparr>ticks := Suc (ticks demo_world)\<rparr>) [0, 1]
       = Inr ([] @ (''b1'', [2]) # [(''b0'', [3])], demo_grouped)"
    using demo_groups [of demo_401] by simp
  have g2: "Write_groups (demo_answers demo_204) demo_client
        (demo_world\<lparr>ticks := Suc (ticks demo_world)\<rparr>) [0, 1]
       = Inr ([(''b1'', [2])] @ (''b0'', [3]) # [], demo_grouped)"
    using demo_groups [of demo_204] by simp
  have first: "write_batches (demo_answers demo_401) demo_client demo_grouped []
       = (None, demo_client, demo_grouped)"
    by simp
  from Write_stops_at_first_error [OF routing gate g1] first demo_ensure_b1 demo_write_b1_401
  have stopped: "Write (demo_answers demo_401) demo_client demo_world [0, 1]
       = (Some (ErrFailedToWrite ''401 Unauthorized'' ''401 Unauthorized''),
          demo_client\<lparr>createBucketExecuted := [''b1'' \<mapsto> True]\<rparr>,
          demo_grouped\<lparr>exchanges := [demo_orgs_exchange,
            (demo_create_request ''b1'', Inr demo_created),
            (demo_write_request ''b1'' [demo_stripped demo_cpu], Inr demo_401)]\<rparr>)"
    by blast
  from Write_stops_at_first_error [OF routing gate g2] demo_Write_204
  have written: "\<exists>c3 w3 c4 w4. writeBatch (demo_answers demo_204) c3 w3 ''b0'' [3] = (None, c4, w4)"
    by blast
  from routing gate g1 g2 first stopped demo_Write_204 written show ?thesis
    by blast
qed

subsection \<open>What each operation changes\<close>

lemma writeBatch_unfold:
  "writeBatch E c w b ms =
     (case makeWriteURL (url c) (Organization c) b of
        Inl err \<Rightarrow> (Some err, c, w)
      | Inr loc \<Rightarrow>
         (case requestBodyReader E c w ms of
            Inl err \<Rightarrow> (Some err, c, w)
          | Inr reader \<Rightarrow>
             (case makeWriteRequest E c loc reader of
                Inl err \<Rightarrow> (Some err, c, w)
              | Inr req \<Rightarrow>
                 (case Do E (length (exchanges w)) req of
                    Inl err \<Rightarrow> (Some err, c,
                       OnClientError err (w\<lparr>exchanges := exchanges w @ [(req, Inl err)]\<rparr>))
                  | Inr resp \<Rightarrow>
                      writeResponse E c (w\<lparr>exchanges := exchanges w @ [(req, Inr resp)]\<rparr>) b resp))))"
  by (simp add: writeBatch_def client_Do_def Let_def split: sum.splits)

lemma extendsI: "exchanges w' = exchanges w @ xs \<Longrightarrow> extends w w' \<and> new_exchanges w w' = xs"
  by (simp add: extends_def new_exchanges_def)

lemma extends_refl: "extends w w" "new_exchanges w w = []"
  by (simp_all add: extends_def new_exchanges_def)

lemma extends_trans:
  assumes "extends w w'" "extends w' w''"
  shows "extends w w''" "new_exchanges w w'' = new_exchanges w w' @ new_exchanges w' w''"
proof -
  from assms have "exchanges w'' = exchanges w @ (new_exchanges w w' @ new_exchanges w' w'')"
    by (simp add: extends_def)
  from extendsI [OF this] show "extends w w''"
    "new_exchanges w w'' = new_exchanges w w' @ new_exchanges w' w''" by simp_all
qed

text \<open>What a response to a write changes.\<close>

lemma writeResponse_frame:
  assumes "writeResponse E c w b resp = (r, c', w')"
  shows "exchanges w' = exchanges w" "heap w' = heap w" "ranges w' = ranges w"
    "createBucketExecuted c' = createBucketExecuted c"
    "r = None \<Longrightarrow> ticks w' = ticks w"
  using assms
  by (auto simp: writeResponse_def Let_def log_Printf_def time_Now_def
      split: if_splits prod.splits)

lemma makeWriteRequest_body:
  "makeWriteRequest E c loc bd = Inr req \<Longrightarrow> ReqBody req = bd"
  by (auto simp: makeWriteRequest_def Let_def split: option.splits)

lemma requestBodyReader_body:
  "requestBodyReader E c w ms = Inr bd \<Longrightarrow> \<exists>xs gz. bd = LineProtocol xs gz"
  by (auto simp: requestBodyReader_def split: option.splits if_splits)

lemma writeBatch_frame:
  assumes "writeBatch E c w b ms = (r, c', w')"
  shows "extends w w'" "heap w' = heap w" "ranges w' = ranges w"
    "createBucketExecuted c' = createBucketExecuted c"
    "r = None \<Longrightarrow> ticks w' = ticks w"
    "\<forall>x\<in>set (new_exchanges w w'). \<forall>b'. \<not> creation_request b' (fst x)"
proof -
  have "extends w w' \<and> heap w' = heap w \<and> ranges w' = ranges w
    \<and> createBucketExecuted c' = createBucketExecuted c
    \<and> (r = None \<longrightarrow> ticks w' = ticks w)
    \<and> (\<forall>x\<in>set (new_exchanges w w'). \<forall>b'. \<not> creation_request b' (fst x))"
  proof (cases "makeWriteURL (url c) (Organization c) b")
    case (Inl err)
    with assms show ?thesis by (auto simp: writeBatch_unfold extends_refl)
  next
    case loc: (Inr loc)
    show ?thesis
    proof (cases "requestBodyReader E c w ms")
      case (Inl err)
      with assms loc show ?thesis by (auto simp: writeBatch_unfold extends_refl)
    next
      case rd: (Inr reader)
      show ?thesis
      proof (cases "makeWriteRequest E c loc reader")
        case (Inl err)
        with assms loc rd show ?thesis by (auto simp: writeBatch_unfold extends_refl)
      next
        case rq: (Inr req)
        from requestBodyReader_body [OF rd] makeWriteRequest_body [OF rq]
        have nc: "\<not> creation_request b' req" for b'
          by (auto simp: creation_request_def)
        show ?thesis
        proof (cases "Do E (length (exchanges w)) req")
          case (Inl err)
          with assms loc rd rq
          have w': "w' = OnClientError err (w\<lparr>exchanges := exchanges w @ [(req, Inl err)]\<rparr>)"
            and c': "c' = c" "r = Some err"
            by (simp_all add: writeBatch_unfold)
          from w' have "exchanges w' = exchanges w @ [(req, Inl err)]"
            by (simp add: OnClientError_def)
          from extendsI [OF this] w' c' nc show ?thesis
            by (simp add: OnClientError_def)
        next
          case (Inr resp)
          with assms loc rd rq
          have run: "writeResponse E c (w\<lparr>exchanges := exchanges w @ [(req, Inr resp)]\<rparr>) b resp
              = (r, c', w')"
            by (simp add: writeBatch_unfold)
          from writeResponse_frame(1) [OF run]
          have "exchanges w' = exchanges w @ [(req, Inr resp)]" by simp
          from extendsI [OF this] writeResponse_frame(2-5) [OF run] nc show ?thesis
            by simp
        qed
      qed
    qed
  qed
  then show "extends w w'" "heap w' = heap w" "ranges w' = ranges w"
    "createBucketExecuted c' = createBucketExecuted c"
    "r = None \<Longrightarrow> ticks w' = ticks w"
    "\<forall>x\<in>set (new_exchanges w w'). \<forall>b'. \<not> creation_request b' (fst x)"
    by blast+
qed

lemma makeAPIRequest_body:
  "makeAPIRequest E c m loc bd = Inr req \<Longrightarrow> ReqBody req = bd"
  by (auto simp: makeAPIRequest_def Let_def split: option.splits)

lemma getOrgID_world:
  assumes "getOrgID E c w = (r, w')"
  shows "w' = w
    \<or> (\<exists>req x. ReqBody req = NoBody \<and> w' = w\<lparr>exchanges := exchanges w @ [(req, x)]\<rparr>)
    \<or> (\<exists>req x err. ReqBody req = NoBody
          \<and> w' = OnClientError err (w\<lparr>exchanges := exchanges w @ [(req, x)]\<rparr>))"
proof (cases "makeOrgIDURL (url c) (Organization c)")
  case (Inl err)
  with assms show ?thesis by (auto simp: getOrgID_def)
next
  case loc: (Inr loc)
  show ?thesis
  proof (cases "makeAPIRequest E c ''GET'' loc NoBody")
    case (Inl err)
    with assms loc show ?thesis by (auto simp: getOrgID_def)
  next
    case rq: (Inr req)
    from makeAPIRequest_body [OF rq] have nb: "ReqBody req = NoBody" .
    show ?thesis
    proof (cases "Do E (length (exchanges w)) req")
      case (Inl err)
      with assms loc rq
      have "w' = OnClientError err (w\<lparr>exchanges := exchanges w @ [(req, Inl err)]\<rparr>)"
        by (auto simp: getOrgID_def client_Do_def Let_def)
      with nb show ?thesis by blast
    next
      case (Inr resp)
      with assms loc rq
      have "w' = w\<lparr>exchanges := exchanges w @ [(req, Inr resp)]\<rparr>"
        by (auto simp: getOrgID_def client_Do_def Let_def
            split: prod.splits option.splits if_splits)
      with nb show ?thesis by blast
    qed
  qed
qed

lemma getOrgID_frame:
  assumes "getOrgID E c w = (r, w')"
  shows "extends w w'" "heap w' = heap w" "ranges w' = ranges w" "ticks w' = ticks w"
    "\<forall>x\<in>set (new_exchanges w w'). \<forall>b'. \<not> creation_request b' (fst x)"
proof -
  from getOrgID_world [OF assms] consider
    (a) "w' = w"
    | (b) req x where "ReqBody req = NoBody" "w' = w\<lparr>exchanges := exchanges w @ [(req, x)]\<rparr>"
    | (c) req x err where "ReqBody req = NoBody"
      "w' = OnClientError err (w\<lparr>exchanges := exchanges w @ [(req, x)]\<rparr>)"
    by blast
  then have "extends w w' \<and> heap w' = heap w \<and> ranges w' = ranges w \<and> ticks w' = ticks w
    \<and> (\<forall>x\<in>set (new_exchanges w w'). \<forall>b'. \<not> creation_request b' (fst x))"
  proof cases
    case a
    then show ?thesis by (simp add: extends_refl)
  next
    case b
    then have "exchanges w' = exchanges w @ [(req, x)]" by simp
    from extendsI [OF this] b show ?thesis by (simp add: creation_request_def)
  next
    case c
    then have "exchanges w' = exchanges w @ [(req, x)]" by (simp add: OnClientError_def)
    from extendsI [OF this] c show ?thesis
      by (simp add: creation_request_def OnClientError_def)
  qed
  then show "extends w w'" "heap w' = heap w" "ranges w' = ranges w" "ticks w' = ticks w"
    "\<forall>x\<in>set (new_exchanges w w'). \<forall>b'. \<not> creation_request b' (fst x)"
    by blast+
qed

text \<open>
  What \<open>CreateBucket\<close> does after the organisation is known: either nothing is sent, or
  one creation request for the bucket is sent; the bucket is marked exactly when the
  answer is 201.
\<close>

lemma CreateBucket_cases:
  assumes "CreateBucket E c w b = (r, c', w')"
  shows "\<exists>r1 w1. getOrgID E c w = (r1, w1) \<and>
    ((r \<noteq> None \<and> c' = c \<and> w' = w1)
     \<or> (\<exists>req err. creation_request b req \<and> r = Some err \<and> c' = c
           \<and> w' = OnClientError err (w1\<lparr>exchanges := exchanges w1 @ [(req, Inl err)]\<rparr>))
     \<or> (\<exists>req resp. creation_request b req \<and> StatusCode resp \<noteq> 201 \<and> r \<noteq> None \<and> c' = c
           \<and> w' = w1\<lparr>exchanges := exchanges w1 @ [(req, Inr resp)]\<rparr>)
     \<or> (\<exists>req resp. creation_request b req \<and> StatusCode resp = 201 \<and> r = None
           \<and> c' = c\<lparr>createBucketExecuted := (createBucketExecuted c)(b \<mapsto> True)\<rparr>
           \<and> w' = w1\<lparr>exchanges := exchanges w1 @ [(req, Inr resp)]\<rparr>))"
proof (cases "getOrgID E c w")
  case (Pair r1 w1)
  show ?thesis
  proof (cases r1)
    case (Inl err)
    with assms Pair show ?thesis by (auto simp: CreateBucket_def)
  next
    case org: (Inr orgId)
    show ?thesis
    proof (cases "makeCreateURL (url c)")
      case (Inl err)
      with assms Pair org show ?thesis by (auto simp: CreateBucket_def)
    next
      case loc: (Inr loc)
      show ?thesis
      proof (cases "makeAPIRequest E c ''POST'' loc (CreateBucketRequest b orgId)")
        case (Inl err)
        with assms Pair org loc show ?thesis by (auto simp: CreateBucket_def)
      next
        case rq: (Inr req)
        from makeAPIRequest_body [OF rq] have cr: "creation_request b req"
          by (simp add: creation_request_def)
        show ?thesis
        proof (cases "Do E (length (exchanges w1)) req")
          case (Inl err)
          with assms Pair org loc rq
          have "r = Some err \<and> c' = c
             \<and> w' = OnClientError err (w1\<lparr>exchanges := exchanges w1 @ [(req, Inl err)]\<rparr>)"
            by (auto simp: CreateBucket_def client_Do_def Let_def)
          with cr Pair show ?thesis by blast
        next
          case (Inr resp)
          show ?thesis
          proof (cases "StatusCode resp = 201")
            case True
            with assms Pair org loc rq Inr
            have "r = None
              \<and> c' = c\<lparr>createBucketExecuted := (createBucketExecuted c)(b \<mapsto> True)\<rparr>
              \<and> w' = w1\<lparr>exchanges := exchanges w1 @ [(req, Inr resp)]\<rparr>"
              by (auto simp: CreateBucket_def client_Do_def Let_def)
            with cr Pair True show ?thesis by blast
          next
            case False
            with assms Pair org loc rq Inr
            have "r \<noteq> None \<and> c' = c
              \<and> w' = w1\<lparr>exchanges := exchanges w1 @ [(req, Inr resp)]\<rparr>"
              by (auto simp: CreateBucket_def client_Do_def Let_def)
            with cr Pair False show ?thesis by blast
          qed
        qed
      qed
    qed
  qed
qed

lemma CreateBucket_frame:
  assumes "CreateBucket E c w b = (r, c', w')"
  shows "extends w w'" "heap w' = heap w" "ranges w' = ranges w" "ticks w' = ticks w"
    "\<forall>x\<in>set (new_exchanges w w'). \<forall>b'. creation_request b' (fst x) \<longrightarrow> b' = b"
    "length (filter (\<lambda>x. creation_request b (fst x)) (new_exchanges w w')) \<le> 1"
    "(\<exists>x\<in>set (new_exchanges w w'). created_201 b x) \<Longrightarrow>
       r = None \<and> c' = c\<lparr>createBucketExecuted := (createBucketExecuted c)(b \<mapsto> True)\<rparr>"
    "\<not> (\<exists>x\<in>set (new_exchanges w w'). created_201 b x) \<Longrightarrow> r \<noteq> None \<and> c' = c"
proof -
  from CreateBucket_cases [OF assms] obtain r1 w1
    where org: "getOrgID E c w = (r1, w1)"
      and cases: "(r \<noteq> None \<and> c' = c \<and> w' = w1)
     \<or> (\<exists>req err. creation_request b req \<and> r = Some err \<and> c' = c
           \<and> w' = OnClientError err (w1\<lparr>exchanges := exchanges w1 @ [(req, Inl err)]\<rparr>))
     \<or> (\<exists>req resp. creation_request b req \<and> StatusCode resp \<noteq> 201 \<and> r \<noteq> None \<and> c' = c
           \<and> w' = w1\<lparr>exchanges := exchanges w1 @ [(req, Inr resp)]\<rparr>)
     \<or> (\<exists>req resp. creation_request b req \<and> StatusCode resp = 201 \<and> r = None
           \<and> c' = c\<lparr>createBucketExecuted := (createBucketExecuted c)(b \<mapsto> True)\<rparr>
           \<and> w' = w1\<lparr>exchanges := exchanges w1 @ [(req, Inr resp)]\<rparr>)"
    by blast
  note f = getOrgID_frame [OF org]
  from f(5) have none: "filter (\<lambda>x. creation_request b' (fst x)) (new_exchanges w w1) = []" for b'
    by (auto simp: filter_empty_conv)
  from f(5) have no201: "\<not> (\<exists>x\<in>set (new_exchanges w w1). created_201 b x)"
    by (auto simp: created_201_def)
  have same: "creation_request b' req \<Longrightarrow> creation_request b req \<Longrightarrow> b' = b" for b' req
    by (auto simp: creation_request_def split: body.splits)
  from cases consider
    (a) "r \<noteq> None" "c' = c" "w' = w1"
    | (b) req err where "creation_request b req" "r = Some err" "c' = c"
      "w' = OnClientError err (w1\<lparr>exchanges := exchanges w1 @ [(req, Inl err)]\<rparr>)"
    | (c) req resp where "creation_request b req" "StatusCode resp \<noteq> 201" "r \<noteq> None" "c' = c"
      "w' = w1\<lparr>exchanges := exchanges w1 @ [(req, Inr resp)]\<rparr>"
    | (d) req resp where "creation_request b req" "StatusCode resp = 201" "r = None"
      "c' = c\<lparr>createBucketExecuted := (createBucketExecuted c)(b \<mapsto> True)\<rparr>"
      "w' = w1\<lparr>exchanges := exchanges w1 @ [(req, Inr resp)]\<rparr>"
    by blast
  then have "extends w w' \<and> heap w' = heap w \<and> ranges w' = ranges w \<and> ticks w' = ticks w
    \<and> (\<forall>x\<in>set (new_exchanges w w'). \<forall>b'. creation_request b' (fst x) \<longrightarrow> b' = b)
    \<and> length (filter (\<lambda>x. creation_request b (fst x)) (new_exchanges w w')) \<le> 1
    \<and> ((\<exists>x\<in>set (new_exchanges w w'). created_201 b x) \<longrightarrow>
       r = None \<and> c' = c\<lparr>createBucketExecuted := (createBucketExecuted c)(b \<mapsto> True)\<rparr>)
    \<and> (\<not> (\<exists>x\<in>set (new_exchanges w w'). created_201 b x) \<longrightarrow> r \<noteq> None \<and> c' = c)"
  proof cases
    case a
    with f none no201 show ?thesis by auto
  next
    case b
    then have "exchanges w' = exchanges w1 @ [(req, Inl err)]" by (simp add: OnClientError_def)
    from extendsI [OF this] have e: "extends w1 w'" "new_exchanges w1 w' = [(req, Inl err)]"
      by simp_all
    from extends_trans [OF f(1) e(1)] e(2)
    have n: "extends w w'" "new_exchanges w w' = new_exchanges w w1 @ [(req, Inl err)]"
      by simp_all
    from n f b none no201 same show ?thesis
      by (auto simp: OnClientError_def created_201_def)
  next
    case c
    then have "exchanges w' = exchanges w1 @ [(req, Inr resp)]" by simp
    from extendsI [OF this] have e: "extends w1 w'" "new_exchanges w1 w' = [(req, Inr resp)]"
      by simp_all
    from extends_trans [OF f(1) e(1)] e(2)
    have n: "extends w w'" "new_exchanges w w' = new_exchanges w w1 @ [(req, Inr resp)]"
      by simp_all
    from n f c none no201 same show ?thesis
      by (auto simp: created_201_def)
  next
    case d
    then have "exchanges w' = exchanges w1 @ [(req, Inr resp)]" by simp
    from extendsI [OF this] have e: "extends w1 w'" "new_exchanges w1 w' = [(req, Inr resp)]"
      by simp_all
    from extends_trans [OF f(1) e(1)] e(2)
    have n: "extends w w'" "new_exchanges w w' = new_exchanges w w1 @ [(req, Inr resp)]"
      by simp_all
    from n f d none no201 same show ?thesis
      by (auto simp: created_201_def)
  qed
  then show "extends w w'" "heap w' = heap w" "ranges w' = ranges w" "ticks w' = ticks w"
    "\<forall>x\<in>set (new_exchanges w w'). \<forall>b'. creation_request b' (fst x) \<longrightarrow> b' = b"
    "length (filter (\<lambda>x. creation_request b (fst x)) (new_exchanges w w')) \<le> 1"
    "(\<exists>x\<in>set (new_exchanges w w'). created_201 b x) \<Longrightarrow>
       r = None \<and> c' = c\<lparr>createBucketExecuted := (createBucketExecuted c)(b \<mapsto> True)\<rparr>"
    "\<not> (\<exists>x\<in>set (new_exchanges w w'). created_201 b x) \<Longrightarrow> r \<noteq> None \<and> c' = c"
    by blast+
qed

lemma ensureBucket_cases:
  assumes "ensureBucket E c w b = (c', w')"
  shows "(c' = c \<and> w' = w \<and> (SkipBucketCreation c \<or> bucket_created c b))
    \<or> (\<not> SkipBucketCreation c \<and> \<not> bucket_created c b \<and>
        (\<exists>r w1. CreateBucket E c w b = (r, c', w1)
           \<and> (w' = w1 \<or> (\<exists>l. w' = log_Printf l w1))))"
  using assms
  by (auto simp: ensureBucket_def bucket_created_def split: if_splits prod.splits option.splits)

lemma ensureBucket_frame:
  assumes "ensureBucket E c w b = (c', w')"
  shows "extends w w'" "heap w' = heap w" "ranges w' = ranges w" "ticks w' = ticks w"
    "\<forall>x\<in>set (new_exchanges w w'). \<forall>b'. creation_request b' (fst x) \<longrightarrow> b' = b \<and> \<not> bucket_created c b"
    "length (filter (\<lambda>x. creation_request b (fst x)) (new_exchanges w w')) \<le> 1"
    "(\<exists>x\<in>set (new_exchanges w w'). created_201 b x) \<Longrightarrow>
       c' = c\<lparr>createBucketExecuted := (createBucketExecuted c)(b \<mapsto> True)\<rparr>"
    "\<not> (\<exists>x\<in>set (new_exchanges w w'). created_201 b x) \<Longrightarrow> c' = c"
proof -
  from ensureBucket_cases [OF assms] consider
    (skip) "c' = c" "w' = w"
    | (create) r w1 where "\<not> bucket_created c b" "CreateBucket E c w b = (r, c', w1)"
      "w' = w1 \<or> (\<exists>l. w' = log_Printf l w1)"
    by blast
  then have "extends w w' \<and> heap w' = heap w \<and> ranges w' = ranges w \<and> ticks w' = ticks w
    \<and> (\<forall>x\<in>set (new_exchanges w w'). \<forall>b'. creation_request b' (fst x) \<longrightarrow> b' = b \<and> \<not> bucket_created c b)
    \<and> length (filter (\<lambda>x. creation_request b (fst x)) (new_exchanges w w')) \<le> 1
    \<and> ((\<exists>x\<in>set (new_exchanges w w'). created_201 b x) \<longrightarrow>
       c' = c\<lparr>createBucketExecuted := (createBucketExecuted c)(b \<mapsto> True)\<rparr>)
    \<and> (\<not> (\<exists>x\<in>set (new_exchanges w w'). created_201 b x) \<longrightarrow> c' = c)"
  proof cases
    case skip
    then show ?thesis by (simp add: extends_refl)
  next
    case create
    note f = CreateBucket_frame [OF create(2)]
    from create(3) have same: "exchanges w' = exchanges w1" "heap w' = heap w1"
      "ranges w' = ranges w1" "ticks w' = ticks w1"
      by (auto simp: log_Printf_def)
    then have n: "new_exchanges w w' = new_exchanges w w1" "extends w w'"
      using f(1) by (simp_all add: new_exchanges_def extends_def)
    from f(7,8) have "(\<exists>x\<in>set (new_exchanges w w1). created_201 b x) \<longrightarrow>
       c' = c\<lparr>createBucketExecuted := (createBucketExecuted c)(b \<mapsto> True)\<rparr>"
      "\<not> (\<exists>x\<in>set (new_exchanges w w1). created_201 b x) \<longrightarrow> c' = c"
      by blast+
    with n same f(2-6) create(1) show ?thesis by auto
  qed
  then show "extends w w'" "heap w' = heap w" "ranges w' = ranges w" "ticks w' = ticks w"
    "\<forall>x\<in>set (new_exchanges w w'). \<forall>b'. creation_request b' (fst x) \<longrightarrow> b' = b \<and> \<not> bucket_created c b"
    "length (filter (\<lambda>x. creation_request b (fst x)) (new_exchanges w w')) \<le> 1"
    "(\<exists>x\<in>set (new_exchanges w w'). created_201 b x) \<Longrightarrow>
       c' = c\<lparr>createBucketExecuted := (createBucketExecuted c)(b \<mapsto> True)\<rparr>"
    "\<not> (\<exists>x\<in>set (new_exchanges w w'). created_201 b x) \<Longrightarrow> c' = c"
    by blast+
qed

text \<open>One round of the loop: the bucket is created, then its batch is written.\<close>

lemma round_frame:
  assumes e: "ensureBucket E c w b = (c1, w1)"
    and wb: "writeBatch E c1 w1 b ms = (r, c2, w2)"
  shows "extends w w2" "heap w2 = heap w" "ranges w2 = ranges w"
    "r = None \<Longrightarrow> ticks w2 = ticks w"
    "\<forall>b'. bucket_created c b' \<longrightarrow> bucket_created c2 b'"
    "\<forall>b'. bucket_created c2 b' \<longrightarrow>
        bucket_created c b' \<or> (\<exists>x\<in>set (new_exchanges w w2). created_201 b' x)"
    "\<forall>b'. bucket_created c b' \<longrightarrow>
        (\<forall>x\<in>set (new_exchanges w w2). \<not> creation_request b' (fst x))"
proof -
  note fe = ensureBucket_frame [OF e]
  note fw = writeBatch_frame [OF wb]
  from extends_trans [OF fe(1) fw(1)]
  have n: "extends w w2" "new_exchanges w w2 = new_exchanges w w1 @ new_exchanges w1 w2" .
  from fe(7,8) have c1: "c1 = c \<or>
     (c1 = c\<lparr>createBucketExecuted := (createBucketExecuted c)(b \<mapsto> True)\<rparr>
      \<and> (\<exists>x\<in>set (new_exchanges w w1). created_201 b x))"
    by blast
  show "extends w w2" by (rule n)
  show "heap w2 = heap w" using fe(2) fw(2) by simp
  show "ranges w2 = ranges w" using fe(3) fw(3) by simp
  show "ticks w2 = ticks w" if "r = None" using that fe(4) fw(5) by simp
  show "\<forall>b'. bucket_created c b' \<longrightarrow> bucket_created c2 b'"
    using c1 fw(4) by (auto simp: bucket_created_def)
  show "\<forall>b'. bucket_created c2 b' \<longrightarrow>
        bucket_created c b' \<or> (\<exists>x\<in>set (new_exchanges w w2). created_201 b' x)"
    using c1 fw(4) n(2) by (auto simp: bucket_created_def split: if_splits)
  show "\<forall>b'. bucket_created c b' \<longrightarrow>
        (\<forall>x\<in>set (new_exchanges w w2). \<not> creation_request b' (fst x))"
    using fe(5) fw(6) n(2) by auto
qed

lemma write_batches_frame:
  assumes "write_batches E c w gs = (r, c', w')"
  shows "extends w w' \<and> heap w' = heap w \<and> ranges w' = ranges w
    \<and> (r = None \<longrightarrow> ticks w' = ticks w)
    \<and> (\<forall>b. bucket_created c b \<longrightarrow> bucket_created c' b)
    \<and> (\<forall>b. bucket_created c' b \<longrightarrow>
          bucket_created c b \<or> (\<exists>x\<in>set (new_exchanges w w'). created_201 b x))
    \<and> (\<forall>b. bucket_created c b \<longrightarrow>
          (\<forall>x\<in>set (new_exchanges w w'). \<not> creation_request b (fst x)))"
  using assms
proof (induction gs arbitrary: c w)
  case Nil
  then show ?case by (simp add: extends_refl)
next
  case (Cons g gs)
  obtain bucket batch where g: "g = (bucket, batch)" by (cases g)
  obtain c1 w1 where e: "ensureBucket E c w bucket = (c1, w1)"
    by (cases "ensureBucket E c w bucket")
  obtain r2 c2 w2 where wb: "writeBatch E c1 w1 bucket batch = (r2, c2, w2)"
    by (cases "writeBatch E c1 w1 bucket batch")
  note f = round_frame [OF e wb]
  show ?case
  proof (cases r2)
    case (Some err)
    with Cons.prems g e wb have "r = Some err" "c' = c2" "w' = w2" by simp_all
    with f show ?thesis by simp
  next
    case None
    with Cons.prems g e wb have rest: "write_batches E c2 w2 gs = (r, c', w')" by simp
    note ih = Cons.IH [OF rest]
    from ih have e2: "extends w2 w'" by blast
    from extends_trans [OF f(1) e2]
    have n: "extends w w'" "new_exchanges w w' = new_exchanges w w2 @ new_exchanges w2 w'" .
    have t: "ticks w2 = ticks w" using f(4) None by simp
    have mono: "\<forall>b. bucket_created c b \<longrightarrow> bucket_created c' b"
      using f(5) ih by blast
    have only: "\<forall>b. bucket_created c' b \<longrightarrow>
          bucket_created c b \<or> (\<exists>x\<in>set (new_exchanges w w'). created_201 b x)"
    proof (intro allI impI)
      fix b assume "bucket_created c' b"
      with ih have "bucket_created c2 b \<or> (\<exists>x\<in>set (new_exchanges w2 w'). created_201 b x)"
        by blast
      with f(6) n(2) show "bucket_created c b \<or> (\<exists>x\<in>set (new_exchanges w w'). created_201 b x)"
        by auto
    qed
    have norec: "\<forall>b. bucket_created c b \<longrightarrow>
          (\<forall>x\<in>set (new_exchanges w w'). \<not> creation_request b (fst x))"
    proof (intro allI impI ballI)
      fix b x assume b: "bucket_created c b" and x: "x \<in> set (new_exchanges w w')"
      from b f(5) have "bucket_created c2 b" by blast
      with ih have "\<forall>x\<in>set (new_exchanges w2 w'). \<not> creation_request b (fst x)" by blast
      with f(7) b x n(2) show "\<not> creation_request b (fst x)" by auto
    qed
    from n(1) ih f(2,3) t mono only norec show ?thesis by simp
  qed
qed

lemma same_exchanges:
  assumes "exchanges w1 = exchanges w"
  shows "new_exchanges w1 w' = new_exchanges w w'" "extends w1 w' = extends w w'"
  using assms by (simp_all add: new_exchanges_def extends_def)

lemma RemoveTag_fresh:
  "RemoveTag (w\<lparr>heap := heap w @ [m]\<rparr>) (length (heap w)) key
     = w\<lparr>heap := heap w @ [m\<lparr>Tags := filter (\<lambda>p. fst p \<noteq> key) (Tags m)\<rparr>]\<rparr>"
  by (simp add: RemoveTag_def)

lemma group_step_frame:
  assumes "group_step c bs w a = Inr (bs', w')"
  shows "exchanges w' = exchanges w" "ticks w' = ticks w" "ranges w' = ranges w"
    "\<exists>ns. heap w' = heap w @ ns"
  using assms
  by (auto simp: group_step_def Let_def Metric_Copy_def RemoveTag_fresh
      split: option.splits if_splits)

lemma group_metrics_frame:
  assumes "group_metrics c bs w ms = Inr (bs', w')"
  shows "exchanges w' = exchanges w \<and> ticks w' = ticks w \<and> ranges w' = ranges w
    \<and> (\<exists>ns. heap w' = heap w @ ns)"
  using assms
proof (induction ms arbitrary: bs w)
  case Nil
  then show ?case by simp
next
  case (Cons a ms)
  from Cons.prems obtain bs1 w1 where s: "group_step c bs w a = Inr (bs1, w1)"
    and rest: "group_metrics c bs1 w1 ms = Inr (bs', w')"
    by (auto split: sum.splits)
  from group_step_frame [OF s] Cons.IH [OF rest] show ?case by auto
qed

lemma Write_groups_frame:
  assumes "Write_groups E c w ms = Inr (gs, w')"
  shows "exchanges w' = exchanges w" "ticks w' = ticks w" "\<exists>ns. heap w' = heap w @ ns"
proof -
  from assms obtain bs w1 where g: "group_metrics c [] w ms = Inr (bs, w1)"
    and w': "w' = w1\<lparr>ranges := Suc (ranges w1)\<rparr>"
    by (auto simp: Write_groups_def split: sum.splits)
  from group_metrics_frame [OF g] w'
  show "exchanges w' = exchanges w" "ticks w' = ticks w" "\<exists>ns. heap w' = heap w @ ns"
    by simp_all
qed

lemma Write_send_frame:
  assumes "Write_send E c w ms = (r, c', w')"
  shows "extends w w' \<and> (\<exists>ns. heap w' = heap w @ ns)
    \<and> (r = None \<longrightarrow> ticks w' = ticks w)
    \<and> (\<forall>b. bucket_created c b \<longrightarrow> bucket_created c' b)
    \<and> (\<forall>b. bucket_created c' b \<longrightarrow>
          bucket_created c b \<or> (\<exists>x\<in>set (new_exchanges w w'). created_201 b x))
    \<and> (\<forall>b. bucket_created c b \<longrightarrow>
          (\<forall>x\<in>set (new_exchanges w w'). \<not> creation_request b (fst x)))"
proof (cases "BucketTag c = []")
  case True
  with assms have wb: "writeBatch E c w (Bucket c) ms = (r, c', w')"
    by (simp add: Write_send_def)
  from writeBatch_frame [OF wb] show ?thesis by (simp add: bucket_created_def)
next
  case False
  show ?thesis
  proof (cases "Write_groups E c w ms")
    case (Inl err)
    with assms False have "c' = c" "w' = w" by (simp_all add: Write_send_def)
    then show ?thesis by (simp add: extends_refl)
  next
    case (Inr p)
    obtain gs w1 where p: "p = (gs, w1)" by (cases p)
    with assms False Inr have run: "write_batches E c w1 gs = (r, c', w')"
      by (simp add: Write_send_def)
    from Inr p have g: "Write_groups E c w ms = Inr (gs, w1)" by simp
    note fg = Write_groups_frame [OF g]
    from write_batches_frame [OF run] fg same_exchanges [OF fg(1)]
    show ?thesis by auto
  qed
qed

lemma Write_frame:
  assumes "Write E c w ms = (r, c', w')"
  shows "extends w w'" "\<exists>ns. heap w' = heap w @ ns"
    "r = None \<Longrightarrow> ticks w' = Suc (ticks w)"
    "\<forall>b. bucket_created c b \<longrightarrow> bucket_created c' b"
    "\<forall>b. bucket_created c' b \<longrightarrow>
          bucket_created c b \<or> (\<exists>x\<in>set (new_exchanges w w'). created_201 b x)"
    "\<forall>b. bucket_created c b \<longrightarrow>
          (\<forall>x\<in>set (new_exchanges w w'). \<not> creation_request b (fst x))"
proof -
  let ?w0 = "w\<lparr>ticks := Suc (ticks w)\<rparr>"
  have ex: "exchanges ?w0 = exchanges w" by simp
  have "extends w w' \<and> (\<exists>ns. heap w' = heap w @ ns)
    \<and> (r = None \<longrightarrow> ticks w' = Suc (ticks w))
    \<and> (\<forall>b. bucket_created c b \<longrightarrow> bucket_created c' b)
    \<and> (\<forall>b. bucket_created c' b \<longrightarrow>
          bucket_created c b \<or> (\<exists>x\<in>set (new_exchanges w w'). created_201 b x))
    \<and> (\<forall>b. bucket_created c b \<longrightarrow>
          (\<forall>x\<in>set (new_exchanges w w'). \<not> creation_request b (fst x)))"
  proof (cases "Now E (ticks w) < retryTime c")
    case True
    with assms have "r = Some ErrRetryTimeNotElapsed" "c' = c" "w' = ?w0"
      by (simp_all add: Write_def time_Now_def)
    then show ?thesis by (simp add: extends_def new_exchanges_def)
  next
    case False
    with assms have "Write_send E c ?w0 ms = (r, c', w')"
      by (simp add: Write_def time_Now_def)
    from Write_send_frame [OF this] same_exchanges [OF ex] show ?thesis by simp
  qed
  then show "extends w w'" "\<exists>ns. heap w' = heap w @ ns"
    "r = None \<Longrightarrow> ticks w' = Suc (ticks w)"
    "\<forall>b. bucket_created c b \<longrightarrow> bucket_created c' b"
    "\<forall>b. bucket_created c' b \<longrightarrow>
          bucket_created c b \<or> (\<exists>x\<in>set (new_exchanges w w'). created_201 b x)"
    "\<forall>b. bucket_created c b \<longrightarrow>
          (\<forall>x\<in>set (new_exchanges w w'). \<not> creation_request b (fst x))"
    by blast+
qed
subsection \<open>The retry window\<close>

text \<open>Nothing after the gate reads \<open>retryTime\<close>.\<close>

lemma writeResponse_retryTime_eq:
  "writeResponse E (c\<lparr>retryTime := t\<rparr>) w b resp =
     (case writeResponse E c w b resp of
        (r, c', w') \<Rightarrow>
          (r, (if StatusCode resp \<in> {429, 503, 502, 504} then c' else c'\<lparr>retryTime := t\<rparr>), w'))"
proof -
  consider (ok) "StatusCode resp \<in> {204, 200, 201, 202, 206, 207, 208}"
    | (drop) "StatusCode resp \<in> {400, 413, 422, 406}"
    | (auth) "StatusCode resp \<in> {401, 403}"
    | (throttle) "StatusCode resp \<in> {429, 503, 502, 504}"
    | (other) "StatusCode resp \<notin> {204, 200, 201, 202, 206, 207, 208}"
        "StatusCode resp \<notin> {400, 413, 422, 406}" "StatusCode resp \<notin> {401, 403}"
        "StatusCode resp \<notin> {429, 503, 502, 504}"
    by blast
  then show ?thesis
  proof cases
    case ok
    then show ?thesis
      by (elim insertE emptyE) (simp_all add: writeResponse_def)
  next
    case drop
    then show ?thesis
      by (elim insertE emptyE) (simp_all add: writeResponse_def Let_def)
  next
    case auth
    then show ?thesis
      by (elim insertE emptyE) (simp_all add: writeResponse_def Let_def)
  next
    case throttle
    then show ?thesis
      by (elim insertE emptyE)
        (simp_all add: writeResponse_def Let_def split_def getRetryDuration_def)
  next
    case other
    then show ?thesis
      unfolding writeResponse_def Let_def by (simp only: if_False) simp
  qed
qed

lemma writeResponse_retryTime:
  assumes "writeResponse E c w b resp = (r, c', w')"
  shows "\<exists>t'. writeResponse E (c\<lparr>retryTime := t\<rparr>) w b resp = (r, c'\<lparr>retryTime := t'\<rparr>, w')"
proof (cases "StatusCode resp \<in> {429, 503, 502, 504}")
  case True
  with assms have "writeResponse E (c\<lparr>retryTime := t\<rparr>) w b resp = (r, c'\<lparr>retryTime := retryTime c'\<rparr>, w')"
    by (simp only: writeResponse_retryTime_eq) simp
  then show ?thesis by blast
next
  case False
  with assms have "writeResponse E (c\<lparr>retryTime := t\<rparr>) w b resp = (r, c'\<lparr>retryTime := t\<rparr>, w')"
    by (simp only: writeResponse_retryTime_eq) simp
  then show ?thesis by blast
qed

lemma makeWriteRequest_retryTime:
  "makeWriteRequest E (c\<lparr>retryTime := t\<rparr>) loc bd = makeWriteRequest E c loc bd"
  by (simp add: makeWriteRequest_def addHeaders_def cong: option.case_cong)

lemma makeAPIRequest_retryTime:
  "makeAPIRequest E (c\<lparr>retryTime := t\<rparr>) m loc bd = makeAPIRequest E c m loc bd"
  by (simp add: makeAPIRequest_def addHeaders_def cong: option.case_cong)

lemma requestBodyReader_retryTime:
  "requestBodyReader E (c\<lparr>retryTime := t\<rparr>) w ms = requestBodyReader E c w ms"
  by (simp add: requestBodyReader_def cong: option.case_cong)

lemma writeBatch_retryTime:
  assumes "writeBatch E c w b ms = (r, c', w')"
  shows "\<exists>t'. writeBatch E (c\<lparr>retryTime := t\<rparr>) w b ms = (r, c'\<lparr>retryTime := t'\<rparr>, w')"
proof (cases "makeWriteURL (url c) (Organization c) b")
  case (Inl err)
  with assms have "writeBatch E (c\<lparr>retryTime := t\<rparr>) w b ms = (r, c'\<lparr>retryTime := t\<rparr>, w')"
    by (auto simp: writeBatch_unfold)
  then show ?thesis by blast
next
  case loc: (Inr loc)
  show ?thesis
  proof (cases "requestBodyReader E c w ms")
    case (Inl err)
    with assms loc have "writeBatch E (c\<lparr>retryTime := t\<rparr>) w b ms = (r, c'\<lparr>retryTime := t\<rparr>, w')"
      by (auto simp: writeBatch_unfold requestBodyReader_retryTime)
    then show ?thesis by blast
  next
    case rd: (Inr reader)
    show ?thesis
    proof (cases "makeWriteRequest E c loc reader")
      case (Inl err)
      with assms loc rd
      have "writeBatch E (c\<lparr>retryTime := t\<rparr>) w b ms = (r, c'\<lparr>retryTime := t\<rparr>, w')"
        by (auto simp: writeBatch_unfold requestBodyReader_retryTime makeWriteRequest_retryTime)
      then show ?thesis by blast
    next
      case rq: (Inr req)
      show ?thesis
      proof (cases "Do E (length (exchanges w)) req")
        case (Inl err)
        with assms loc rd rq
        have "writeBatch E (c\<lparr>retryTime := t\<rparr>) w b ms = (r, c'\<lparr>retryTime := t\<rparr>, w')"
          by (auto simp: writeBatch_unfold requestBodyReader_retryTime
              makeWriteRequest_retryTime)
        then show ?thesis by blast
      next
        case (Inr resp)
        with assms loc rd rq
        have "writeResponse E c (w\<lparr>exchanges := exchanges w @ [(req, Inr resp)]\<rparr>) b resp
            = (r, c', w')"
          by (simp add: writeBatch_unfold)
        from writeResponse_retryTime [OF this, of t] Inr loc rd rq show ?thesis
          by (simp add: writeBatch_unfold requestBodyReader_retryTime
              makeWriteRequest_retryTime)
      qed
    qed
  qed
qed

lemma getOrgID_retryTime:
  "getOrgID E (c\<lparr>retryTime := t\<rparr>) w = getOrgID E c w"
  by (auto simp: getOrgID_def makeAPIRequest_retryTime
      split: sum.splits prod.splits option.splits)

lemma CreateBucket_retryTime:
  "CreateBucket E (c\<lparr>retryTime := t\<rparr>) w b =
     (case CreateBucket E c w b of (r, c', w') \<Rightarrow> (r, c'\<lparr>retryTime := t\<rparr>, w'))"
  by (simp add: CreateBucket_def getOrgID_retryTime makeAPIRequest_retryTime Let_def
      split: sum.splits prod.splits)

lemma ensureBucket_retryTime:
  "ensureBucket E (c\<lparr>retryTime := t\<rparr>) w b =
     (case ensureBucket E c w b of (c', w') \<Rightarrow> (c'\<lparr>retryTime := t\<rparr>, w'))"
  by (simp add: ensureBucket_def CreateBucket_retryTime split: prod.splits option.splits)

lemma group_step_retryTime:
  "group_step (c\<lparr>retryTime := t\<rparr>) bs w a = group_step c bs w a"
  by (simp add: group_step_def Let_def split_def cong: option.case_cong if_cong)

lemma group_metrics_retryTime:
  "group_metrics (c\<lparr>retryTime := t\<rparr>) bs w ms = group_metrics c bs w ms"
  by (induction ms arbitrary: bs w)
    (simp_all add: group_step_retryTime split: sum.splits)

lemma Write_groups_retryTime:
  "Write_groups E (c\<lparr>retryTime := t\<rparr>) w ms = Write_groups E c w ms"
  by (simp add: Write_groups_def group_metrics_retryTime)

lemma write_batches_retryTime:
  "write_batches E c w gs = (r, c', w') \<Longrightarrow>
   \<exists>t'. write_batches E (c\<lparr>retryTime := t\<rparr>) w gs = (r, c'\<lparr>retryTime := t'\<rparr>, w')"
proof (induction gs arbitrary: c w t)
  case Nil
  then have "write_batches E (c\<lparr>retryTime := t\<rparr>) w [] = (r, c'\<lparr>retryTime := t\<rparr>, w')"
    by auto
  then show ?case by blast
next
  case (Cons g gs)
  obtain bucket batch where g: "g = (bucket, batch)" by (cases g)
  obtain c1 w1 where e: "ensureBucket E c w bucket = (c1, w1)"
    by (cases "ensureBucket E c w bucket")
  obtain r2 c2 w2 where wb: "writeBatch E c1 w1 bucket batch = (r2, c2, w2)"
    by (cases "writeBatch E c1 w1 bucket batch")
  from e have e': "ensureBucket E (c\<lparr>retryTime := t\<rparr>) w bucket = (c1\<lparr>retryTime := t\<rparr>, w1)"
    by (simp add: ensureBucket_retryTime)
  from writeBatch_retryTime [OF wb, of t] obtain t2
    where wb': "writeBatch E (c1\<lparr>retryTime := t\<rparr>) w1 bucket batch = (r2, c2\<lparr>retryTime := t2\<rparr>, w2)"
    by blast
  show ?case
  proof (cases r2)
    case None
    with Cons.prems g e wb have "write_batches E c2 w2 gs = (r, c', w')" by simp
    from Cons.IH [OF this, of t2] None g e' wb' show ?thesis by simp
  next
    case (Some err)
    with Cons.prems g e wb have "r = Some err" "c' = c2" "w' = w2" by simp_all
    with Some g e' wb' have "write_batches E (c\<lparr>retryTime := t\<rparr>) w (g # gs)
        = (r, c'\<lparr>retryTime := t2\<rparr>, w')" by simp
    then show ?thesis by blast
  qed
qed

lemma Write_send_retryTime:
  assumes "Write_send E c w ms = (r, c', w')"
  shows "\<exists>t'. Write_send E (c\<lparr>retryTime := t\<rparr>) w ms = (r, c'\<lparr>retryTime := t'\<rparr>, w')"
proof (cases "BucketTag c = []")
  case True
  with assms have "writeBatch E c w (Bucket c) ms = (r, c', w')" by (simp add: Write_send_def)
  from writeBatch_retryTime [OF this, of t] True show ?thesis by (simp add: Write_send_def)
next
  case False
  show ?thesis
  proof (cases "Write_groups E c w ms")
    case (Inl err)
    with assms False have "Write_send E (c\<lparr>retryTime := t\<rparr>) w ms = (r, c'\<lparr>retryTime := t\<rparr>, w')"
      by (auto simp: Write_send_def Write_groups_retryTime)
    then show ?thesis by blast
  next
    case (Inr p)
    obtain gs w1 where p: "p = (gs, w1)" by (cases p)
    with assms False Inr have "write_batches E c w1 gs = (r, c', w')"
      by (simp add: Write_send_def)
    from write_batches_retryTime [OF this, of t] False Inr p show ?thesis
      by (simp add: Write_send_def Write_groups_retryTime)
  qed
qed

text \<open>
  C5. A \<open>Write\<close> made while the clock is before \<open>retryTime\<close> returns the retry-window
  error at once: the client is unchanged and nothing is sent, the only effect being the
  one reading of the clock. When the gate is open, \<open>Write\<close> is what follows the gate,
  and what follows never looks at \<open>retryTime\<close> again: its result and everything it
  sends and logs are the same for any value of \<open>retryTime\<close>. A \<open>Write\<close> that returns no
  error has read the clock exactly once, at entry.
\<close>

theorem Write_gate:
  "(Now E (ticks w) < retryTime c \<longrightarrow>
      Write E c w metrics = (Some ErrRetryTimeNotElapsed, c, w\<lparr>ticks := Suc (ticks w)\<rparr>)
      \<and> new_exchanges w (snd (snd (Write E c w metrics))) = [])
   \<and> (\<not> Now E (ticks w) < retryTime c \<longrightarrow>
      Write E c w metrics = Write_send E c (w\<lparr>ticks := Suc (ticks w)\<rparr>) metrics)
   \<and> fst (Write_send E (c\<lparr>retryTime := t\<rparr>) w metrics) = fst (Write_send E c w metrics)
   \<and> snd (snd (Write_send E (c\<lparr>retryTime := t\<rparr>) w metrics))
       = snd (snd (Write_send E c w metrics))
   \<and> (fst (Write E c w metrics) = None \<longrightarrow>
       ticks (snd (snd (Write E c w metrics))) = Suc (ticks w))"
proof -
  obtain r c' w' where run: "Write_send E c w metrics = (r, c', w')"
    by (cases "Write_send E c w metrics")
  from Write_send_retryTime [OF run, of t] run
  have indep: "fst (Write_send E (c\<lparr>retryTime := t\<rparr>) w metrics) = fst (Write_send E c w metrics)
   \<and> snd (snd (Write_send E (c\<lparr>retryTime := t\<rparr>) w metrics))
       = snd (snd (Write_send E c w metrics))"
    by auto
  obtain r2 c2 w2 where all: "Write E c w metrics = (r2, c2, w2)"
    by (cases "Write E c w metrics")
  from Write_frame(3) [OF all] all
  have once: "fst (Write E c w metrics) = None \<longrightarrow>
       ticks (snd (snd (Write E c w metrics))) = Suc (ticks w)"
    by simp
  have gate: "(Now E (ticks w) < retryTime c \<longrightarrow>
      Write E c w metrics = (Some ErrRetryTimeNotElapsed, c, w\<lparr>ticks := Suc (ticks w)\<rparr>)
      \<and> new_exchanges w (snd (snd (Write E c w metrics))) = [])
   \<and> (\<not> Now E (ticks w) < retryTime c \<longrightarrow>
      Write E c w metrics = Write_send E c (w\<lparr>ticks := Suc (ticks w)\<rparr>) metrics)"
    by (simp add: Write_def time_Now_def new_exchanges_def)
  from gate indep once show ?thesis by blast
qed

theorem Write_gate_witness:
  "Now (demo_answers demo_204) (ticks demo_world) < retryTime (demo_client\<lparr>retryTime := 200 * Second\<rparr>)
   \<and> Write (demo_answers demo_204) (demo_client\<lparr>retryTime := 200 * Second\<rparr>) demo_world [0, 1]
      = (Some ErrRetryTimeNotElapsed, demo_client\<lparr>retryTime := 200 * Second\<rparr>,
         demo_world\<lparr>ticks := Suc (ticks demo_world)\<rparr>)
   \<and> new_exchanges demo_world
        (snd (snd (Write (demo_answers demo_204) (demo_client\<lparr>retryTime := 200 * Second\<rparr>)
           demo_world [0, 1]))) = []
   \<and> \<not> Now (demo_answers demo_204) (ticks demo_world) < retryTime demo_client
   \<and> Write (demo_answers demo_204) demo_client demo_world [0, 1]
      = Write_send (demo_answers demo_204) demo_client
          (demo_world\<lparr>ticks := Suc (ticks demo_world)\<rparr>) [0, 1]
   \<and> fst (Write (demo_answers demo_204) demo_client demo_world [0, 1]) = None
   \<and> ticks (snd (snd (Write (demo_answers demo_204) demo_client demo_world [0, 1])))
      = Suc (ticks demo_world)"
proof -
  have closed: "Now (demo_answers demo_204) (ticks demo_world)
      < retryTime (demo_client\<lparr>retryTime := 200 * Second\<rparr>)"
    by (simp add: demo_defs)
  have opened: "\<not> Now (demo_answers demo_204) (ticks demo_world) < retryTime demo_client"
    by (simp add: demo_defs)
  have sent: "fst (Write (demo_answers demo_204) demo_client demo_world [0, 1]) = None"
    unfolding demo_Write_204 by simp
  from Write_gate [of "demo_answers demo_204" demo_world
      "demo_client\<lparr>retryTime := 200 * Second\<rparr>" "[0, 1]" 0]
    Write_gate [of "demo_answers demo_204" demo_world demo_client "[0, 1]" 0]
    closed opened sent
  show ?thesis by blast
qed

subsection \<open>The write URL\<close>

lemma split_slash_nonempty: "split_slash p \<noteq> []"
  by (induction p) (auto split: list.splits)

lemma split_slash_append:
  "split_slash (p @ CHR ''/'' # q) = split_slash p @ split_slash q"
proof (induction p)
  case Nil
  show ?case by simp
next
  case (Cons c p)
  show ?case
  proof (cases "c = CHR ''/''")
    case True
    with Cons show ?thesis by simp
  next
    case False
    obtain x xs where s: "split_slash p = x # xs"
      using split_slash_nonempty [of p] by (cases "split_slash p") auto
    with False Cons show ?thesis by simp
  qed
qed

lemma join_slash_append:
  "xs \<noteq> [] \<Longrightarrow> ys \<noteq> [] \<Longrightarrow> join_slash (xs @ ys) = join_slash xs @ ''/'' @ join_slash ys"
proof (induction xs rule: join_slash.induct)
  case 1
  then show ?case by simp
next
  case (2 x)
  then show ?case by (cases ys) simp_all
next
  case (3 x y ys')
  then show ?case by simp
qed

lemma clean_step_kept:
  "\<forall>e\<in>set st. e \<noteq> [] \<and> e \<noteq> ''.'' \<Longrightarrow> \<forall>e\<in>set (clean_step r st x). e \<noteq> [] \<and> e \<noteq> ''.''"
  by (cases st) (auto simp: clean_step_def)

lemma clean_stack_kept:
  "\<forall>e\<in>set st. e \<noteq> [] \<and> e \<noteq> ''.''
     \<Longrightarrow> \<forall>e\<in>set (foldl (clean_step r) st xs). e \<noteq> [] \<and> e \<noteq> ''.''"
proof (induction xs arbitrary: st)
  case Nil
  then show ?case by simp
next
  case (Cons x xs)
  from Cons.IH [OF clean_step_kept [OF Cons.prems]] show ?case by simp
qed

lemma join_slash_kept:
  assumes "xs \<noteq> []" "\<forall>e\<in>set xs. e \<noteq> [] \<and> e \<noteq> ''.''"
  shows "join_slash xs \<noteq> [] \<and> join_slash xs \<noteq> ''.''"
proof (cases xs)
  case Nil
  with assms show ?thesis by simp
next
  case (Cons x ys)
  show ?thesis
  proof (cases ys)
    case Nil
    with Cons assms show ?thesis by simp
  next
    case (Cons y zs)
    from assms \<open>xs = x # ys\<close> obtain c cs where "x = c # cs" by (cases x) auto
    with Cons \<open>xs = x # ys\<close> show ?thesis by simp
  qed
qed

text \<open>
  Cleaning a path followed by a text whose elements are \<open>api\<close>, \<open>v2\<close> and \<open>write\<close>:
  the cleaned path, then these three elements.
\<close>

lemma path_Clean_suffix:
  assumes ne: "p \<noteq> []"
    and sp: "split_slash (p @ t) = split_slash p @ xs"
    and st: "\<And>r st. foldl (clean_step r) st xs = ''write'' # ''v2'' # ''api'' # st"
  shows "path_Clean (p @ t)
     = (if hd p = CHR ''/'' then
          (if path_Clean p = ''/'' then [] else path_Clean p) @ ''/api/v2/write''
        else if path_Clean p = ''.'' then ''api/v2/write''
        else path_Clean p @ ''/api/v2/write'')"
proof -
  define r where "r = (hd p = CHR ''/'')"
  define stack where "stack = rev (foldl (clean_step r) [] (split_slash p))"
  define root where "root = (if r then ''/'' else [])"
  have hd: "hd (p @ t) = hd p" using ne by simp
  have good: "\<forall>e\<in>set stack. e \<noteq> [] \<and> e \<noteq> ''.''"
    unfolding stack_def using clean_stack_kept [of "[]" r "split_slash p"] by simp
  have cl: "path_Clean p = (if root @ join_slash stack = [] then ''.'' else root @ join_slash stack)"
    using ne by (simp add: path_Clean_def Let_def r_def stack_def root_def)
  have more: "join_slash (stack @ [''api'', ''v2'', ''write''])
      = (if stack = [] then ''api/v2/write'' else join_slash stack @ ''/api/v2/write'')"
  proof (cases "stack = []")
    case True
    then show ?thesis by simp
  next
    case False
    then have "join_slash (stack @ [''api'', ''v2'', ''write''])
        = join_slash stack @ ''/'' @ join_slash [''api'', ''v2'', ''write'']"
      by (intro join_slash_append) simp_all
    with False show ?thesis by simp
  qed
  have "foldl (clean_step r) [] (split_slash p @ xs)
      = ''write'' # ''v2'' # ''api'' # rev stack"
    by (simp add: st stack_def)
  then have "path_Clean (p @ t) =
      (if root @ join_slash (stack @ [''api'', ''v2'', ''write'']) = [] then ''.''
       else root @ join_slash (stack @ [''api'', ''v2'', ''write'']))"
    using ne
    by (simp add: path_Clean_def Let_def hd sp r_def [symmetric] root_def
        del: split_slash.simps foldl_append)
  then have jn: "path_Clean (p @ t)
      = root @ (if stack = [] then ''api/v2/write'' else join_slash stack @ ''/api/v2/write'')"
    unfolding more by (simp split: if_splits)
  have out: "path_Clean (p @ t)
     = (if r then (if path_Clean p = ''/'' then [] else path_Clean p) @ ''/api/v2/write''
        else if path_Clean p = ''.'' then ''api/v2/write''
        else path_Clean p @ ''/api/v2/write'')"
  proof (cases "stack = []")
    case True
    with jn cl show ?thesis by (simp add: root_def)
  next
    case False
    have "join_slash stack \<noteq> [] \<and> join_slash stack \<noteq> ''.''"
      using False good by (rule join_slash_kept)
    with False jn cl show ?thesis by (simp add: root_def)
  qed
  then show ?thesis by (simp add: r_def)
qed

lemma path_Join_write:
  "path_Join p ''/api/v2/write''
     = (if p = [] then ''/api/v2/write''
        else if hd p = CHR ''/'' then
          (if path_Clean p = ''/'' then [] else path_Clean p) @ ''/api/v2/write''
        else if path_Clean p = ''.'' then ''api/v2/write''
        else path_Clean p @ ''/api/v2/write'')"
proof (cases "p = []")
  case True
  then show ?thesis by (simp add: path_Join_def path_Clean_def clean_step_def)
next
  case False
  have sp: "split_slash (p @ ''//api/v2/write'') = split_slash p @ [[], ''api'', ''v2'', ''write'']"
    using split_slash_append [of p "''/api/v2/write''"] by simp
  have "path_Clean (p @ ''//api/v2/write'')
     = (if hd p = CHR ''/'' then
          (if path_Clean p = ''/'' then [] else path_Clean p) @ ''/api/v2/write''
        else if path_Clean p = ''.'' then ''api/v2/write''
        else path_Clean p @ ''/api/v2/write'')"
    using False sp by (rule path_Clean_suffix) (simp add: clean_step_def)
  with False show ?thesis by (simp add: path_Join_def)
qed

lemma path_Clean_rooted:
  assumes "p \<noteq> []" "hd p = CHR ''/''"
  shows "path_Clean p \<noteq> [] \<and> hd (path_Clean p) = CHR ''/''"
  using assms by (simp add: path_Clean_def Let_def)

lemma path_Clean_shorter:
  assumes "p \<noteq> []" "hd p = CHR ''/''" "p = path_Clean p @ ''/api/v2/write''"
  shows "length (path_Clean p) < length p"
proof -
  have "length p = length (path_Clean p) + length ''/api/v2/write''"
    using assms(3) by (metis length_append)
  then show ?thesis by simp
qed

text \<open>The path with \<open>/api/v2/write\<close> appended is never the path itself.\<close>

lemma path_Join_changes:
  assumes "p \<noteq> []" "hd p = CHR ''/''"
  shows "(if path_Clean p = ''/'' then [] else path_Clean p) @ ''/api/v2/write'' \<noteq> p"
  using assms
proof (induction p rule: length_induct)
  case (1 p)
  show ?case
  proof
    assume eq: "(if path_Clean p = ''/'' then [] else path_Clean p) @ ''/api/v2/write'' = p"
    show False
    proof (cases "path_Clean p = ''/''")
      case True
      with eq have "p = ''/api/v2/write''" by simp
      then have "path_Clean p = ''/api/v2/write''"
        by (simp add: path_Clean_def clean_step_def)
      with True show False by simp
    next
      case False
      let ?q = "path_Clean p"
      from False eq have p: "p = ?q @ ''/api/v2/write''" by simp
      have q: "?q \<noteq> []" "hd ?q = CHR ''/''"
        using path_Clean_rooted [OF "1.prems"] by simp_all
      have shorter: "length ?q < length p"
        using "1.prems" p by (rule path_Clean_shorter)
      have sp: "split_slash (?q @ ''/api/v2/write'') = split_slash ?q @ [''api'', ''v2'', ''write'']"
        using split_slash_append [of ?q "''api/v2/write''"] by simp
      have "path_Clean (?q @ ''/api/v2/write'')
         = (if hd ?q = CHR ''/'' then
              (if path_Clean ?q = ''/'' then [] else path_Clean ?q) @ ''/api/v2/write''
            else if path_Clean ?q = ''.'' then ''api/v2/write''
            else path_Clean ?q @ ''/api/v2/write'')"
        using q(1) sp by (rule path_Clean_suffix) (simp add: clean_step_def)
      with q(2) p have "(if path_Clean ?q = ''/'' then [] else path_Clean ?q) @ ''/api/v2/write'' = ?q"
        by simp
      moreover from "1.IH" shorter q
      have "(if path_Clean ?q = ''/'' then [] else path_Clean ?q) @ ''/api/v2/write'' \<noteq> ?q"
        by blast
      ultimately show False by simp
    qed
  qed
qed

lemma write_query:
  "Values_Encode (Values_Set (Values_Set [] ''bucket'' bucket) ''org'' org)
     = ''bucket='' @ QueryEscape bucket @ ''&org='' @ QueryEscape org"
  by (simp add: Values_Encode_def Values_Set_def QueryEscape_def shouldEscape_def isAlnum_def)

lemma escape_rooted:
  "escape (CHR ''/'' # s) encodePath = CHR ''/'' # escape s encodePath"
  by (simp add: shouldEscape_def isAlnum_def)

text \<open>
  C8, amended. For a base URL with scheme http or https, the write URL is the base
  with \<open>/api/v2/write\<close> joined to its path by \<open>path.Join\<close>, which cleans the prefix
  (repeated slashes and \<open>.\<close> and \<open>..\<close> elements are resolved; a prefix that is clean
  is kept as it is and the root adds nothing), and with the query
  \<open>bucket=...&org=...\<close>, both values percent-encoded. When such a base has a host, no
  opaque part, a path that is empty or begins with a slash, and a raw path that is
  empty or decodes to the path, the write URL reads
  \<open>scheme://\<close>, the user information if any, the host, the cleaned prefix,
  \<open>/api/v2/write?bucket=...&org=...\<close>, and the fragment if any. For a base URL with
  the unix scheme, no opaque part, no user information, no fragment and no raw path
  that decodes to \<open>/api/v2/write\<close>, the write URL is
  \<open>http://127.0.0.1/api/v2/write?bucket=...&org=...\<close> whatever the path of the base.
\<close>

theorem makeWriteURL_shape:
  "((Scheme loc = ''http'' \<or> Scheme loc = ''https'') \<longrightarrow>
      makeWriteURL loc org bucket =
        Inr (URL_String (loc\<lparr>
          Path := (if Path loc = [] then ''/api/v2/write''
                   else if hd (Path loc) = CHR ''/'' then
                     (if path_Clean (Path loc) = ''/'' then [] else path_Clean (Path loc))
                     @ ''/api/v2/write''
                   else if path_Clean (Path loc) = ''.'' then ''api/v2/write''
                   else path_Clean (Path loc) @ ''/api/v2/write''),
          RawQuery := ''bucket='' @ QueryEscape bucket @ ''&org='' @ QueryEscape org\<rparr>)))
   \<and> ((Scheme loc = ''http'' \<or> Scheme loc = ''https'') \<and> Opaque loc = []
      \<and> Host loc \<noteq> [] \<and> (Path loc = [] \<or> hd (Path loc) = CHR ''/'')
      \<and> (RawPath loc = [] \<or> unescape (RawPath loc) = Some (Path loc)) \<longrightarrow>
      makeWriteURL loc org bucket =
        Inr (Scheme loc @ ''://''
             @ (case User loc of None \<Rightarrow> [] | Some ui \<Rightarrow> Userinfo_String ui @ ''@'')
             @ escape (Host loc) encodeHost
             @ escape ((if Path loc = [] \<or> path_Clean (Path loc) = ''/'' then []
                   else path_Clean (Path loc)) @ ''/api/v2/write'') encodePath
             @ ''?bucket='' @ QueryEscape bucket @ ''&org='' @ QueryEscape org
             @ (if Fragment loc = [] then [] else ''#'' @ EscapedFragment loc)))
   \<and> (Scheme loc = ''unix'' \<and> Opaque loc = [] \<and> User loc = None \<and> Fragment loc = []
      \<and> (RawPath loc = [] \<or> unescape (RawPath loc) \<noteq> Some ''/api/v2/write'') \<longrightarrow>
      makeWriteURL loc org bucket =
        Inr (''http://127.0.0.1/api/v2/write?bucket='' @ QueryEscape bucket
             @ ''&org='' @ QueryEscape org))"
proof -
  let ?query = "''bucket='' @ QueryEscape bucket @ ''&org='' @ QueryEscape org"
  have web: "makeWriteURL loc org bucket =
        Inr (URL_String (loc\<lparr>
          Path := (if Path loc = [] then ''/api/v2/write''
                   else if hd (Path loc) = CHR ''/'' then
                     (if path_Clean (Path loc) = ''/'' then [] else path_Clean (Path loc))
                     @ ''/api/v2/write''
                   else if path_Clean (Path loc) = ''.'' then ''api/v2/write''
                   else path_Clean (Path loc) @ ''/api/v2/write''),
          RawQuery := ?query\<rparr>))"
    if s: "Scheme loc = ''http'' \<or> Scheme loc = ''https''"
    using s by (auto simp: makeWriteURL_def Let_def write_query path_Join_write)
  have shown: "makeWriteURL loc org bucket =
        Inr (Scheme loc @ ''://''
             @ (case User loc of None \<Rightarrow> [] | Some ui \<Rightarrow> Userinfo_String ui @ ''@'')
             @ escape (Host loc) encodeHost
             @ escape ((if Path loc = [] \<or> path_Clean (Path loc) = ''/'' then []
                   else path_Clean (Path loc)) @ ''/api/v2/write'') encodePath
             @ ''?bucket='' @ QueryEscape bucket @ ''&org='' @ QueryEscape org
             @ (if Fragment loc = [] then [] else ''#'' @ EscapedFragment loc))"
    if s: "Scheme loc = ''http'' \<or> Scheme loc = ''https''" and o: "Opaque loc = []"
      and h: "Host loc \<noteq> []" and p: "Path loc = [] \<or> hd (Path loc) = CHR ''/''"
      and raw: "RawPath loc = [] \<or> unescape (RawPath loc) = Some (Path loc)"
  proof -
    define path where "path = (if Path loc = [] \<or> path_Clean (Path loc) = ''/'' then []
                   else path_Clean (Path loc)) @ ''/api/v2/write''"
    define u where "u = loc\<lparr>Path := path, RawQuery := ?query\<rparr>"
    have run: "makeWriteURL loc org bucket = Inr (URL_String u)"
      using web [OF s] p by (auto simp: u_def path_def)
    have star: "path \<noteq> ''*''"
      unfolding path_def
      by (cases "if Path loc = [] \<or> path_Clean (Path loc) = ''/'' then []
                   else path_Clean (Path loc)") simp_all
    have slash: "path \<noteq> [] \<and> hd path = CHR ''/''"
      unfolding path_def using p path_Clean_rooted [of "Path loc"] by auto
    then obtain rest where rest: "path = CHR ''/'' # rest"
      by (cases path) auto
    have changed: "path \<noteq> Path loc"
    proof (cases "Path loc = []")
      case True
      then show ?thesis by (simp add: path_def)
    next
      case False
      with p have "(if path_Clean (Path loc) = ''/'' then [] else path_Clean (Path loc))
          @ ''/api/v2/write'' \<noteq> Path loc"
        by (intro path_Join_changes) simp_all
      with False show ?thesis by (simp add: path_def)
    qed
    have "\<not> (RawPath loc \<noteq> [] \<and> validEncoding (RawPath loc) encodePath
          \<and> unescape (RawPath loc) = Some path)"
      using raw changed by auto
    then have "EscapedPath u = escape path encodePath"
      using star by (auto simp: EscapedPath_def u_def)
    then have esc: "EscapedPath u = CHR ''/'' # escape rest encodePath"
      by (simp only: rest escape_rooted)
    have fields: "Scheme u = Scheme loc" "Opaque u = []" "User u = User loc"
      "Host u = Host loc" "RawQuery u = ?query" "Fragment u = Fragment loc"
      "EscapedFragment u = EscapedFragment loc" "Path u = path"
      using o by (simp_all add: u_def EscapedFragment_def)
    have sch: "Scheme loc \<noteq> []" using s by auto
    have "URL_String u = Scheme loc @ ''://''
             @ (case User loc of None \<Rightarrow> [] | Some ui \<Rightarrow> Userinfo_String ui @ ''@'')
             @ escape (Host loc) encodeHost
             @ escape path encodePath
             @ ''?'' @ ?query
             @ (if Fragment loc = [] then [] else ''#'' @ EscapedFragment loc)"
      using h sch
      by (simp add: URL_String_def Let_def fields esc rest shouldEscape_def isAlnum_def)
    with run show ?thesis by (simp add: path_def)
  qed
  have unix: "makeWriteURL loc org bucket =
        Inr (''http://127.0.0.1/api/v2/write?bucket='' @ QueryEscape bucket
             @ ''&org='' @ QueryEscape org)"
    if s: "Scheme loc = ''unix''" and o: "Opaque loc = []" and n: "User loc = None"
      and f: "Fragment loc = []"
      and raw: "RawPath loc = [] \<or> unescape (RawPath loc) \<noteq> Some ''/api/v2/write''"
  proof -
    define u where "u = loc\<lparr>Scheme := ''http'', Host := ''127.0.0.1'',
               Path := ''/api/v2/write'', RawQuery := ?query\<rparr>"
    have run: "makeWriteURL loc org bucket = Inr (URL_String u)"
      using s by (simp add: makeWriteURL_def Let_def write_query u_def)
    have esc: "EscapedPath u = ''/api/v2/write''"
      using raw by (auto simp: EscapedPath_def u_def shouldEscape_def isAlnum_def)
    have fields: "Scheme u = ''http''" "Opaque u = []" "User u = None"
      "Host u = ''127.0.0.1''" "RawQuery u = ?query" "Fragment u = []"
      using o n f by (simp_all add: u_def)
    have "URL_String u = ''http://127.0.0.1/api/v2/write?'' @ ?query"
      by (simp add: URL_String_def Let_def fields esc shouldEscape_def isAlnum_def
          hostSubDelims_def)
    with run show ?thesis by simp
  qed
  from web shown unix show ?thesis by blast
qed

lemma char_of_slash: "char_of (47::nat) = CHR ''/''"
  by code_simp

lemma demo_unescape_raw: "unescape ''/api%2Fv2%2Fwrite'' = Some ''/api/v2/write''"
  by (simp add: ishex_def unhex_def char_of_slash)

text \<open>
  A prefix that is not clean is not kept: \<open>/a/../b\<close> becomes \<open>/b\<close>. A socket base
  parsed from \<open>unix:///api%2Fv2%2Fwrite\<close> keeps its raw path in the write URL.
\<close>

theorem makeWriteURL_shape_counterexample:
  "makeWriteURL demo_unclean ''o'' ''b'' = Inr ''http://host/b/api/v2/write?bucket=b&org=o''
   \<and> spec_writeURL demo_unclean ''o'' ''b'' = ''http://host/a/../b/api/v2/write?bucket=b&org=o''
   \<and> makeWriteURL demo_unclean ''o'' ''b'' \<noteq> Inr (spec_writeURL demo_unclean ''o'' ''b'')
   \<and> Scheme demo_raw_socket = ''unix''
   \<and> makeWriteURL demo_raw_socket ''o'' ''b''
       = Inr ''http://127.0.0.1/api%2Fv2%2Fwrite?bucket=b&org=o''
   \<and> spec_writeURL demo_raw_socket ''o'' ''b'' = ''http://127.0.0.1/api/v2/write?bucket=b&org=o''
   \<and> makeWriteURL demo_raw_socket ''o'' ''b'' \<noteq> Inr (spec_writeURL demo_raw_socket ''o'' ''b'')"
  by (simp add: demo_unclean_def demo_raw_socket_def spec_writeURL_def url_defs
      demo_unescape_raw char_of_slash)

theorem makeWriteURL_shape_witness:
  "(Scheme demo_base = ''http'' \<or> Scheme demo_base = ''https'')
   \<and> Opaque demo_base = [] \<and> Host demo_base \<noteq> []
   \<and> (Path demo_base = [] \<or> hd (Path demo_base) = CHR ''/'')
   \<and> RawPath demo_base = []
   \<and> path_Clean (Path demo_base) = Path demo_base
   \<and> makeWriteURL demo_base ''o'' ''b'' = Inr ''https://host/prefix/api/v2/write?bucket=b&org=o''
   \<and> Scheme demo_socket = ''unix'' \<and> Opaque demo_socket = [] \<and> User demo_socket = None
   \<and> Fragment demo_socket = [] \<and> RawPath demo_socket = []
   \<and> makeWriteURL demo_socket ''my org'' ''b/1''
       = Inr ''http://127.0.0.1/api/v2/write?bucket=b%2F1&org=my+org''"
  using makeWriteURL_shape [of demo_base "''o''" "''b''"]
    makeWriteURL_shape [of demo_socket "''my org''" "''b/1''"]
  by (simp add: demo_base_def demo_socket_def url_defs)

subsection \<open>Created buckets\<close>

lemmas demo_defs3 = demo_done_def demo_after_def demo_final_def demo_403_def demo_refusing_def
  demo_refused_def demo_refused_again_def

lemma Write_calls_frame:
  assumes "Write_calls E c w calls = (c', w')"
  shows "extends w w'
    \<and> (\<forall>b. bucket_created c b \<longrightarrow> bucket_created c' b)
    \<and> (\<forall>b. bucket_created c' b \<longrightarrow>
          bucket_created c b \<or> (\<exists>x\<in>set (new_exchanges w w'). created_201 b x))
    \<and> (\<forall>b. bucket_created c b \<longrightarrow>
          (\<forall>x\<in>set (new_exchanges w w'). \<not> creation_request b (fst x)))"
  using assms
proof (induction calls arbitrary: c w)
  case Nil
  then show ?case by (simp add: extends_refl)
next
  case (Cons ms calls)
  obtain r c1 w1 where first: "Write E c w ms = (r, c1, w1)" by (cases "Write E c w ms")
  with Cons.prems have rest: "Write_calls E c1 w1 calls = (c', w')" by simp
  note f = Write_frame [OF first]
  note ih = Cons.IH [OF rest]
  from ih have e2: "extends w1 w'" by blast
  from extends_trans [OF f(1) e2]
  have n: "extends w w'" "new_exchanges w w' = new_exchanges w w1 @ new_exchanges w1 w'" .
  have mono: "\<forall>b. bucket_created c b \<longrightarrow> bucket_created c' b"
    using f(4) ih by blast
  have only: "\<forall>b. bucket_created c' b \<longrightarrow>
          bucket_created c b \<or> (\<exists>x\<in>set (new_exchanges w w'). created_201 b x)"
  proof (intro allI impI)
    fix b assume "bucket_created c' b"
    with ih have "bucket_created c1 b \<or> (\<exists>x\<in>set (new_exchanges w1 w'). created_201 b x)"
      by blast
    with f(5) n(2) show "bucket_created c b \<or> (\<exists>x\<in>set (new_exchanges w w'). created_201 b x)"
      by auto
  qed
  have norec: "\<forall>b. bucket_created c b \<longrightarrow>
          (\<forall>x\<in>set (new_exchanges w w'). \<not> creation_request b (fst x))"
  proof (intro allI impI ballI)
    fix b x assume b: "bucket_created c b" and x: "x \<in> set (new_exchanges w w')"
    from b f(4) have "bucket_created c1 b" by blast
    with ih have "\<forall>x\<in>set (new_exchanges w1 w'). \<not> creation_request b (fst x)" by blast
    with f(6) b x n(2) show "\<not> creation_request b (fst x)" by auto
  qed
  from n(1) mono only norec show ?case by simp
qed

text \<open>
  C10. Over any sequence of \<open>Write\<close> calls on a client, the buckets recorded as created
  only grow: a bucket that was recorded stays recorded, a bucket is newly recorded only
  if one of the calls had its creation answered with 201, and no creation request is
  ever sent again for a bucket that is recorded. \<open>writeBatch\<close> never changes the record,
  whatever it returns: a write that fails with \<open>BucketNotFoundError\<close> does not un-mark
  the bucket.
\<close>

theorem created_buckets_only_grow:
  assumes "Write_calls E c w calls = (c', w')"
  shows "(\<forall>b. bucket_created c b \<longrightarrow> bucket_created c' b)
    \<and> (\<forall>b. bucket_created c' b \<longrightarrow>
          bucket_created c b \<or> (\<exists>x\<in>set (new_exchanges w w'). created_201 b x))
    \<and> (\<forall>b. bucket_created c b \<longrightarrow>
          (\<forall>x\<in>set (new_exchanges w w'). \<not> creation_request b (fst x)))
    \<and> (\<forall>bucket batch wa r2 c2 w2.
          writeBatch E c wa bucket batch = (r2, c2, w2) \<longrightarrow>
          createBucketExecuted c2 = createBucketExecuted c)"
proof -
  have "createBucketExecuted c2 = createBucketExecuted c"
    if "writeBatch E c wa bucket batch = (r2, c2, w2)" for bucket batch wa r2 c2 w2
    using writeBatch_frame(4) [OF that] .
  with Write_calls_frame [OF assms] show ?thesis by blast
qed





lemma demo_second_Write:
  "Write (demo_answers (demo_404 ''nf'')) demo_done demo_after [0, 1]
   = (Some (BucketNotFoundError
        (APIError 404 ''404 Not Found'' ''not found: bucket b1 not found'') ''b1''),
      demo_done, demo_final)"
  by (simp add: Write_def Write_send_def demo_defs demo_defs3 url_defs model_defs create_defs
      group_defs errStringBucketNotFound_def)

theorem created_buckets_only_grow_witness:
  "Write_calls (demo_answers (demo_404 ''nf'')) demo_done demo_after [[0, 1]]
     = (demo_done, demo_final)
   \<and> bucket_created demo_done ''b1''
   \<and> new_exchanges demo_after demo_final
       = [(demo_write_request ''b1'' [demo_stripped demo_cpu], Inr (demo_404 ''nf''))]
   \<and> \<not> creation_request ''b1'' (demo_write_request ''b1'' [demo_stripped demo_cpu])"
proof -
  have calls: "Write_calls (demo_answers (demo_404 ''nf'')) demo_done demo_after [[0, 1]]
     = (demo_done, demo_final)"
    by (simp only: Write_calls.simps demo_second_Write prod.case)
  have made: "bucket_created demo_done ''b1''"
    by (simp add: bucket_created_def demo_done_def)
  have new: "new_exchanges demo_after demo_final
       = [(demo_write_request ''b1'' [demo_stripped demo_cpu], Inr (demo_404 ''nf''))]"
    by (simp add: new_exchanges_def demo_final_def demo_after_def)
  from created_buckets_only_grow [OF calls] made new calls show ?thesis
    by auto
qed

lemma demo_ensure_again:
  "ensureBucket (demo_answers demo_204)
     (demo_client\<lparr>createBucketExecuted := [''b1'' \<mapsto> True]\<rparr>)
     (demo_grouped\<lparr>exchanges := [demo_orgs_exchange,
        (demo_create_request ''b1'', Inr demo_created)]\<rparr>) ''b1''
   = (demo_client\<lparr>createBucketExecuted := [''b1'' \<mapsto> True]\<rparr>,
      demo_grouped\<lparr>exchanges := [demo_orgs_exchange,
        (demo_create_request ''b1'', Inr demo_created)]\<rparr>)"
  by (simp add: ensureBucket_def)





subsection \<open>The default bucket\<close>

text \<open>
  C4, at a client with no routing tag and bucket creation not skipped: \<open>Write\<close> sends
  the whole input to the default bucket in one write request and nothing else. No
  organisation is looked up and no bucket is created, although the bucket is not
  recorded as created; with a routing tag the same bucket would be created first.
\<close>

theorem Write_default_bucket_not_created:
  "Write (demo_answers demo_204) (demo_client\<lparr>BucketTag := []\<rparr>) demo_world [0, 1]
     = (None, demo_client\<lparr>BucketTag := [], retryCount := 0\<rparr>,
        demo_world\<lparr>ticks := 1,
          exchanges := [(demo_write_request ''b0'' [demo_cpu, demo_mem], Inr demo_204)]\<rparr>)
   \<and> \<not> SkipBucketCreation (demo_client\<lparr>BucketTag := []\<rparr>)
   \<and> Bucket (demo_client\<lparr>BucketTag := []\<rparr>) = ''b0''
   \<and> createBucketExecuted (demo_client\<lparr>BucketTag := []\<rparr>) ''b0'' = None"
  by (simp add: Write_def Write_send_def demo_defs url_defs model_defs)

subsection \<open>The input metrics\<close>

lemma range_order_set: "set (range_order rs xs) = set xs"
proof (induction rs xs rule: range_order.induct)
  case (1 rs)
  show ?case by simp
next
  case (2 x xs)
  show ?case by simp
next
  case (3 r rs x xs)
  let ?ys = "x # xs"
  let ?i = "r mod length ?ys"
  have i: "?i < length ?ys" by simp
  have "set ?ys = insert (?ys ! ?i) (set (take ?i ?ys @ drop (Suc ?i) ?ys))"
  proof -
    have "?ys = take ?i ?ys @ ?ys ! ?i # drop (Suc ?i) ?ys"
      using i by (rule id_take_nth_drop)
    then have "set ?ys = set (take ?i ?ys @ ?ys ! ?i # drop (Suc ?i) ?ys)" by simp
    then show ?thesis by simp
  qed
  with 3 show ?case by (simp add: Let_def del: take_Suc_Cons drop_Suc_Cons)
qed

lemma batches_append_set:
  assumes "(b, batch') \<in> set (batches_append bs k a)"
  shows "\<exists>batch. (b, batch) \<in> set bs \<and> (batch' = batch \<or> batch' = batch @ [a])"
  using assms by (auto simp: batches_append_def split: if_splits)

lemma GetTag_removed:
  "GetTag (m\<lparr>Tags := filter (\<lambda>p. fst p \<noteq> key) (Tags m)\<rparr>) key = None"
  by (auto simp: GetTag_def map_of_eq_None_iff)

lemma group_step_copies:
  assumes s: "group_step c bs w a0 = Inr (bs', w')" and x: "ExcludeBucketTag c"
    and inv: "stripped_copies c n bs w" and n: "n \<le> length (heap w)"
  shows "stripped_copies c n bs' w' \<and> n \<le> length (heap w')"
proof -
  from s x obtain m bucket where m: "deref w a0 = Some m"
    and w': "w' = w\<lparr>heap := heap w @ [m\<lparr>Tags := filter (\<lambda>p. fst p \<noteq> BucketTag c) (Tags m)\<rparr>]\<rparr>"
    and bs': "bs' = batches_append (if map_of bs bucket = None then bs @ [(bucket, [])] else bs)
                 bucket (length (heap w))"
    by (auto simp: group_step_def Let_def Metric_Copy_def RemoveTag_fresh split: option.splits)
  have "n \<le> a \<and> a < length (heap w') \<and> GetTag (heap w' ! a) (BucketTag c) = None"
    if mem: "(b, batch') \<in> set bs'" and a: "a \<in> set batch'" for b batch' a
  proof -
    from batches_append_set [OF mem [unfolded bs']] obtain batch
      where old: "(b, batch) \<in> set (if map_of bs bucket = None then bs @ [(bucket, [])] else bs)"
        and new: "batch' = batch \<or> batch' = batch @ [length (heap w)]"
      by blast
    from old have "(b, batch) \<in> set bs \<or> batch = []" by (auto split: if_splits)
    with a new consider (o) "(b, batch) \<in> set bs" "a \<in> set batch" | (f) "a = length (heap w)"
      by auto
    then show ?thesis
    proof cases
      case o
      with inv have "n \<le> a \<and> a < length (heap w) \<and> GetTag (heap w ! a) (BucketTag c) = None"
        by (auto simp: stripped_copies_def)
      with w' show ?thesis by (simp add: nth_append)
    next
      case f
      with w' n show ?thesis by (simp add: GetTag_removed)
    qed
  qed
  moreover from w' n have "n \<le> length (heap w')" by simp
  ultimately show ?thesis by (auto simp: stripped_copies_def)
qed

lemma group_metrics_copies:
  assumes "group_metrics c bs w ms = Inr (bs', w')" "ExcludeBucketTag c"
    "stripped_copies c n bs w" "n \<le> length (heap w)"
  shows "stripped_copies c n bs' w'"
  using assms
proof (induction ms arbitrary: bs w)
  case Nil
  then show ?case by simp
next
  case (Cons a ms)
  from Cons.prems(1) obtain bs1 w1 where s: "group_step c bs w a = Inr (bs1, w1)"
    and rest: "group_metrics c bs1 w1 ms = Inr (bs', w')"
    by (auto split: sum.splits)
  from group_step_copies [OF s Cons.prems(2,3,4)] Cons.IH [OF rest Cons.prems(2)]
  show ?case by blast
qed

text \<open>
  C9. After \<open>Write\<close> returns, every metric object that existed before the call, the
  input metrics among them, is as it was. When the routing tag is stripped, the batches
  hold only objects allocated during the call, copies that carry no routing tag.
\<close>

theorem Write_keeps_metrics:
  "(Write E c w metrics = (r, c', w') \<longrightarrow>
      (\<forall>a. a < length (heap w) \<longrightarrow> deref w' a = deref w a))
   \<and> (ExcludeBucketTag c \<and> Write_groups E c w metrics = Inr (gs, w1) \<longrightarrow>
      (\<forall>(b, batch)\<in>set gs. \<forall>a\<in>set batch.
         length (heap w) \<le> a
         \<and> (\<exists>m. deref w1 a = Some m \<and> GetTag m (BucketTag c) = None)))"
proof -
  have kept: "\<forall>a. a < length (heap w) \<longrightarrow> deref w' a = deref w a"
    if "Write E c w metrics = (r, c', w')"
  proof -
    from Write_frame(2) [OF that] obtain ns where "heap w' = heap w @ ns" by blast
    then show ?thesis by (simp add: deref_def nth_append)
  qed
  have copies: "\<forall>(b, batch)\<in>set gs. \<forall>a\<in>set batch.
         length (heap w) \<le> a
         \<and> (\<exists>m. deref w1 a = Some m \<and> GetTag m (BucketTag c) = None)"
    if x: "ExcludeBucketTag c" and g: "Write_groups E c w metrics = Inr (gs, w1)"
  proof -
    from g obtain bs w0 where gm: "group_metrics c [] w metrics = Inr (bs, w0)"
      and gs: "gs = range_order (RangeOrder E (ranges w0)) bs"
      and w1: "w1 = w0\<lparr>ranges := Suc (ranges w0)\<rparr>"
      by (auto simp: Write_groups_def split: sum.splits)
    have "stripped_copies c (length (heap w)) [] w" by (simp add: stripped_copies_def)
    from group_metrics_copies [OF gm x this]
    have "stripped_copies c (length (heap w)) bs w0" by simp
    with gs w1 show ?thesis
      by (auto simp: stripped_copies_def range_order_set deref_def)
  qed
  from kept copies show ?thesis by blast
qed


theorem Write_keeps_metrics_witness:
  "Write (demo_answers demo_204) demo_client demo_world [0, 1]
     = (None, demo_done, demo_after)
   \<and> 0 < length (heap demo_world)
   \<and> deref demo_after 0 = Some demo_cpu
   \<and> GetTag demo_cpu (BucketTag demo_client) = Some ''b1''
   \<and> ExcludeBucketTag demo_client
   \<and> Write_groups (demo_answers demo_204) demo_client
        (demo_world\<lparr>ticks := Suc (ticks demo_world)\<rparr>) [0, 1]
       = Inr ([(''b1'', [2]), (''b0'', [3])], demo_grouped)
   \<and> length (heap demo_world) \<le> 2
   \<and> deref demo_grouped 2 = Some (demo_stripped demo_cpu)
   \<and> GetTag (demo_stripped demo_cpu) (BucketTag demo_client) = None"
proof -
  have run: "Write (demo_answers demo_204) demo_client demo_world [0, 1]
     = (None, demo_done, demo_after)"
    unfolding demo_Write_204 by (simp add: demo_done_def demo_after_def)
  have old: "0 < length (heap demo_world)" "deref demo_world 0 = Some demo_cpu"
    by (simp_all add: demo_world_def deref_def)
  have x: "ExcludeBucketTag demo_client"
    by (simp add: demo_client_def)
  have tag: "GetTag demo_cpu (BucketTag demo_client) = Some ''b1''"
    by (simp add: GetTag_def demo_cpu_def demo_client_def)
  have copy: "length (heap demo_world) \<le> 2" "deref demo_grouped 2 = Some (demo_stripped demo_cpu)"
    by (simp_all add: demo_world_def demo_grouped_def deref_def)
  from Write_keeps_metrics [of "demo_answers demo_204" demo_client demo_world "[0, 1]"
      None demo_done demo_after] run old
  have kept: "deref demo_after 0 = Some demo_cpu" by simp
  from Write_keeps_metrics [of "demo_answers demo_204" demo_client
      "demo_world\<lparr>ticks := Suc (ticks demo_world)\<rparr>" "[0, 1]" _ _ _
      "[(''b1'', [2]), (''b0'', [3])]" demo_grouped]
    x demo_groups [of demo_204] copy
  have stripped: "GetTag (demo_stripped demo_cpu) (BucketTag demo_client) = None"
    by auto
  from run old(1) kept tag x demo_groups [of demo_204] copy stripped show ?thesis
    by blast
qed

end
